theory Spec2Isabelle
  imports Complex_Main
begin

section \<open>The ORB-SLAM3 wrapper interface (orb\_slam3\_interface.cpp)\<close>

text \<open>
  The class \<^verbatim>\<open>ORBSLAM3Interface\<close> sits between ROS 2 messages and the ORB-SLAM3 engine.
  Its member functions are embedded as HOL functions over an explicit record of the
  members. What the file calls but does not define is kept as a parameter:
  \<^item> the type conversions, Eigen, tf2 and cv\_bridge are the fields of a record
    \<open>ext\<close> of pure functions, which also carries the values the program leaves
    undetermined;
  \<^item> the engine (\<^verbatim>\<open>ORB_SLAM3::System\<close>, its atlas, maps and keyframes) is a record
    \<open>engine\<close> of accessors: the view of the engine's objects that the wrapper's calls
    observe. Pointers to engine objects are addresses.
  Scalars (\<^verbatim>\<open>double\<close>, \<^verbatim>\<open>float\<close>), poses (\<^verbatim>\<open>Sophus::SE3f\<close>,
  \<^verbatim>\<open>Eigen::Affine3d\<close>) and times in seconds are type parameters: the wrapper only
  copies, compares and hands them on. Header stamps are nanosecond counts, the
  representation in which \<^verbatim>\<open>rclcpp::Time\<close> adds a duration.
\<close>

subsection \<open>Messages\<close>

type_synonym kf_ptr = nat
type_synonym map_ptr = nat
type_synonym atlas_ptr = nat
type_synonym stamp = nat

record 'r vec3 =
  vx :: 'r
  vy :: 'r
  vz :: 'r

record 'r quat =
  qw :: 'r
  qx :: 'r
  qy :: 'r
  qz :: 'r

record 'r pose_msg =
  pose_position :: "'r vec3"
  pose_orientation :: "'r quat"

record 'raw image_msg =
  image_stamp :: stamp
  image_data :: 'raw

record 'r imu_msg =
  imu_stamp :: stamp
  linear_acceleration :: "'r vec3"
  angular_velocity :: "'r vec3"

text \<open>\<^verbatim>\<open>ORB_SLAM3::IMU::Point(acc, gyr, t)\<close>, with \<^verbatim>\<open>cv::Point3f\<close> components.\<close>

record ('f, 't) imu_point =
  point_a :: "'f vec3"
  point_w :: "'f vec3"
  point_t :: 't

record 'r odometry =
  odom_stamp :: stamp
  odom_position :: "'r vec3"
  odom_orientation :: "'r quat"

record 'r transform_stamped =
  tf_stamp :: stamp
  tf_frame_id :: string
  tf_child_frame_id :: string
  tf_translation :: "'r vec3"
  tf_rotation :: "'r quat"

text \<open>\<^verbatim>\<open>slam_msgs::msg::MapGraph\<close>: two parallel sequences; a stamped pose carries its
  frame identifier and stamp.\<close>

record 'r pose_stamped =
  ps_pose :: "'r pose_msg"
  ps_frame_id :: string
  ps_stamp :: stamp

record 'r map_graph =
  poses :: "'r pose_stamped list"
  poses_id :: "nat list"

subsection \<open>Collaborators\<close>

text \<open>
  \<open>toCvShare\<close> returns \<open>None\<close> where \<^verbatim>\<open>cv_bridge::toCvShare\<close> throws
  \<^verbatim>\<open>cv_bridge::Exception\<close>. \<open>affineOf p q\<close> is
  \<^verbatim>\<open>Eigen::Affine3d(Eigen::Translation3d(p) * Eigen::Quaterniond(q))\<close>, \<open>affMul\<close> and
  \<open>affInverse\<close> are the product and \<^verbatim>\<open>inverse()\<close> of \<^verbatim>\<open>Eigen::Affine3d\<close>.

  \<open>defaultAffine k\<close> is the content of the entry that \<^verbatim>\<open>operator[]\<close> of the
  reference-pose table default-constructs for a key \<open>k\<close> it does not hold. The default
  constructor of \<^verbatim>\<open>Eigen::Affine3d\<close> leaves the coefficients uninitialised, so the program
  does not fix this value: it may differ from key to key and from call to call. Between two
  \<^verbatim>\<open>clear()\<close> of the table a key is default-constructed at most once, so one value per
  key describes one call; a statement about two calls gives each call its own record.
\<close>

record ('r, 'f, 't, 'se3, 'aff, 'raw, 'img) ext =
  stampToSec :: "stamp \<Rightarrow> 't"
  secToStamp :: "'t \<Rightarrow> stamp"
  toFloat :: "'r \<Rightarrow> 'f"
  se3ToAffine :: "'se3 \<Rightarrow> 'aff"
  transformPoseWithReference :: "'aff \<Rightarrow> 'se3 \<Rightarrow> 'aff"
  transformPoseWithReferenceMsg :: "'aff \<Rightarrow> 'se3 \<Rightarrow> 'r pose_msg"
  toCvShare :: "'raw image_msg \<Rightarrow> 'img option"
  affineOf :: "'r vec3 \<Rightarrow> 'r quat \<Rightarrow> 'aff"
  affMul :: "'aff \<Rightarrow> 'aff \<Rightarrow> 'aff"
  affInverse :: "'aff \<Rightarrow> 'aff"
  toMsg :: "'aff \<Rightarrow> 'r pose_msg"
  defaultAffine :: "map_ptr \<Rightarrow> 'aff"

text \<open>
  The engine as the wrapper sees it. \<open>TrackRGBD\<close> is the tracking step (the overload
  without inertial data passes the empty vector of its default argument);
  \<open>GetTrackingState\<close> and \<open>mergeDetected\<close> are what the engine reports after it.
\<close>

record ('f, 't, 'se3, 'img) engine =
  GetAtlas :: atlas_ptr
  GetAllMaps :: "atlas_ptr \<Rightarrow> map_ptr list"
  GetCurrentMap :: "atlas_ptr \<Rightarrow> map_ptr"
  AtlasGetAllKeyFrames :: "atlas_ptr \<Rightarrow> kf_ptr list"
  GetInitKFid :: "map_ptr \<Rightarrow> nat"
  GetOriginKF :: "map_ptr \<Rightarrow> kf_ptr"
  GetAllKeyFrames :: "map_ptr \<Rightarrow> kf_ptr list"
  mnId :: "kf_ptr \<Rightarrow> nat"
  GetPose :: "kf_ptr \<Rightarrow> 'se3"
  GetMap :: "kf_ptr \<Rightarrow> map_ptr"
  mTimeStamp :: "kf_ptr \<Rightarrow> 't"
  TrackRGBD :: "'img \<Rightarrow> 'img \<Rightarrow> 't \<Rightarrow> ('f, 't) imu_point list \<Rightarrow> 'se3"
  GetTrackingState :: int
  mergeDetected :: bool

subsection \<open>The members of the interface\<close>

text \<open>
  \<open>orbAtlas\<close> is \<open>None\<close> until a member function assigns the pointer.
  \<open>allKFs\<close> is a \<^verbatim>\<open>std::map\<close> keyed by keyframe identifier, which is iterated: it is
  the list of its entries in ascending key order. \<open>mapReferencePoses\<close> is a
  \<^verbatim>\<open>std::map\<close> keyed by map pointer that is only indexed. \<open>imuBuf\<close> is a FIFO queue,
  front first.
\<close>

record ('r, 'aff) state =
  robotX :: 'r
  robotY :: 'r
  globalFrame :: string
  odomFrame :: string
  orbAtlas :: "atlas_ptr option"
  mapReferencePoses :: "map_ptr \<rightharpoonup> 'aff"
  allKFs :: "(nat \<times> kf_ptr) list"
  latestTrackedPose :: 'aff
  hasTracked :: bool
  imuBuf :: "'r imu_msg list"

text \<open>Dereferencing a pointer that holds no object ends the run of the program.\<close>

datatype error = NullAtlasDereference | NullKeyFrameDereference

subsection \<open>The two \<^verbatim>\<open>std::map\<close> members\<close>

text \<open>\<^verbatim>\<open>m[k] = v\<close> on the ordered map: the entry is replaced, or inserted at its place.\<close>

fun kfs_assign :: "nat \<Rightarrow> 'v \<Rightarrow> (nat \<times> 'v) list \<Rightarrow> (nat \<times> 'v) list" where
  "kfs_assign k v [] = [(k, v)]"
| "kfs_assign k v (e # es) =
     (if fst e = k then (k, v) # es
      else if k < fst e then (k, v) # e # es
      else e # kfs_assign k v es)"

text \<open>\<^verbatim>\<open>m.find(k)\<close>: the entry of the key, if there is one.\<close>

definition kfs_find :: "(nat \<times> 'v) list \<Rightarrow> nat \<Rightarrow> 'v option" where
  "kfs_find m k = map_of m k"

text \<open>Reading \<^verbatim>\<open>mapReferencePoses_[k]\<close>: a missing key is inserted with a
  default-constructed transform, which is then the value read; \<open>junk k\<close> is what that
  uninitialised transform holds.\<close>

definition refpose_at ::
  "(map_ptr \<rightharpoonup> 'aff) \<Rightarrow> (map_ptr \<Rightarrow> 'aff) \<Rightarrow> map_ptr \<Rightarrow> 'aff \<times> (map_ptr \<rightharpoonup> 'aff)" where
  "refpose_at tbl junk k =
     (case tbl k of Some v \<Rightarrow> (v, tbl) | None \<Rightarrow> (junk k, tbl(k \<mapsto> junk k)))"

subsection \<open>makeKFIdPair\<close>

definition makeKFIdPair :: "('f, 't, 'se3, 'img) engine \<Rightarrow> map_ptr list \<Rightarrow> (nat \<times> kf_ptr) list" where
  "makeKFIdPair e mapsList =
     fold (\<lambda>pMap_i mpIdKFs.
             fold (\<lambda>pKF_j_Mi. kfs_assign (mnId e pKF_j_Mi) pKF_j_Mi) (GetAllKeyFrames e pMap_i) mpIdKFs)
          mapsList []"

subsection \<open>calculateReferencePoses\<close>

text \<open>
  The loop over the sorted maps. A map whose \<^verbatim>\<open>GetInitKFid()\<close> is not 0 reads
  \<^verbatim>\<open>allKFs_[GetInitKFid() - 1]\<close>; for a key the index does not hold, \<^verbatim>\<open>operator[]\<close>
  yields a null pointer, and \<^verbatim>\<open>->GetPose()\<close> dereferences it.
\<close>

definition poseOffset :: "('r::{zero,one}, 'f, 't, 'se3, 'aff, 'raw, 'img) ext \<Rightarrow> 'r \<Rightarrow> 'r \<Rightarrow> 'aff" where
  "poseOffset x rX rY =
     affineOf x \<lparr>vx = rX, vy = rY, vz = 0\<rparr> \<lparr>qw = 1, qx = 0, qy = 0, qz = 0\<rparr>"

fun resolveLoop ::
  "('r::{zero,one}, 'f, 't, 'se3, 'aff, 'raw, 'img) ext \<Rightarrow> ('f, 't, 'se3, 'img) engine \<Rightarrow> 'r \<Rightarrow> 'r \<Rightarrow>
   (nat \<times> kf_ptr) list \<Rightarrow> map_ptr list \<Rightarrow> (map_ptr \<rightharpoonup> 'aff) \<Rightarrow> error + (map_ptr \<rightharpoonup> 'aff)" where
  "resolveLoop x e rX rY idx [] tbl = Inr tbl"
| "resolveLoop x e rX rY idx (m # ms) tbl =
     (if GetInitKFid e m = 0 then
        resolveLoop x e rX rY idx ms
          (tbl(m \<mapsto> affMul x (poseOffset x rX rY) (se3ToAffine x (GetPose e (GetOriginKF e m)))))
      else
        (case kfs_find idx (GetInitKFid e m - 1) of
           None \<Rightarrow> Inl NullKeyFrameDereference
         | Some kf \<Rightarrow>
             (case refpose_at tbl (defaultAffine x) (GetMap e kf) of
                (ref, tbl1) \<Rightarrow>
                  resolveLoop x e rX rY idx ms
                    (tbl1(m \<mapsto> transformPoseWithReference x ref (GetPose e kf))))))"

text \<open>\<^verbatim>\<open>std::sort\<close> with \<^verbatim>\<open>compareInitKFid\<close>: ascending \<^verbatim>\<open>GetInitKFid()\<close>. The order
  among maps with equal \<^verbatim>\<open>GetInitKFid()\<close>, which \<^verbatim>\<open>std::sort\<close> leaves open, is here the
  one of the insertion sort; the statements below use only that the result is ascending
  and holds the same maps.\<close>

definition sortMaps :: "('f, 't, 'se3, 'img) engine \<Rightarrow> map_ptr list \<Rightarrow> map_ptr list" where
  "sortMaps e mapsList = sort_key (GetInitKFid e) mapsList"

definition calculateReferencePoses ::
  "('r::{zero,one}, 'f, 't, 'se3, 'aff, 'raw, 'img) ext \<Rightarrow> ('f, 't, 'se3, 'img) engine \<Rightarrow>
   ('r, 'aff) state \<Rightarrow> error + ('r, 'aff) state" where
  "calculateReferencePoses x e s =
     (case orbAtlas s of
        None \<Rightarrow> Inl NullAtlasDereference
      | Some atlas \<Rightarrow>
          (let mapsList = sortMaps e (GetAllMaps e atlas);
               idx = makeKFIdPair e mapsList
           in case resolveLoop x e (robotX s) (robotY s) idx mapsList Map.empty of
                Inl err \<Rightarrow> Inl err
              | Inr tbl \<Rightarrow> Inr (s\<lparr>mapReferencePoses := tbl, allKFs := idx\<rparr>)))"

subsection \<open>correctTrackedPose\<close>

definition correctTrackedPose ::
  "('r, 'f, 't, 'se3, 'aff, 'raw, 'img) ext \<Rightarrow> ('f, 't, 'se3, 'img) engine \<Rightarrow>
   ('r, 'aff) state \<Rightarrow> 'se3 \<Rightarrow> error + ('r, 'aff) state" where
  "correctTrackedPose x e s pose =
     (case orbAtlas s of
        None \<Rightarrow> Inl NullAtlasDereference
      | Some atlas \<Rightarrow>
          (case refpose_at (mapReferencePoses s) (defaultAffine x) (GetCurrentMap e atlas) of
             (ref, tbl1) \<Rightarrow>
               Inr (s\<lparr>mapReferencePoses := tbl1,
                       latestTrackedPose := transformPoseWithReference x ref pose\<rparr>)))"

subsection \<open>getMapToOdomTF\<close>

text \<open>\<^verbatim>\<open>rclcpp::Duration::from_seconds(0.5)\<close> in nanoseconds.\<close>

definition transformTimeout :: nat where
  "transformTimeout = 500000000"

definition getMapToOdomTF ::
  "('r, 'f, 't, 'se3, 'aff, 'raw, 'img) ext \<Rightarrow> ('r, 'aff) state \<Rightarrow> 'r odometry \<Rightarrow>
   'r transform_stamped \<Rightarrow> 'r transform_stamped" where
  "getMapToOdomTF x s msgOdom tf =
     (if hasTracked s then
        (let latestOdomTransform = affineOf x (odom_position msgOdom) (odom_orientation msgOdom);
             tfMapOdom = affMul x (latestTrackedPose s) (affInverse x latestOdomTransform);
             poseMapOdom = toMsg x tfMapOdom;
             odomTimestamp = odom_stamp msgOdom;
             tf1 = tf\<lparr>tf_stamp := odomTimestamp + transformTimeout\<rparr>;
             tf2 = tf1\<lparr>tf_frame_id := globalFrame s\<rparr>;
             tf3 = tf2\<lparr>tf_child_frame_id := odomFrame s\<rparr>;
             tf4 = tf3\<lparr>tf_translation :=
                        \<lparr>vx = vx (pose_position poseMapOdom),
                         vy = vy (pose_position poseMapOdom),
                         vz = vz (pose_position poseMapOdom)\<rparr>\<rparr>
         in tf4\<lparr>tf_rotation := pose_orientation poseMapOdom\<rparr>)
      else tf)"

subsection \<open>getOptimizedPoseGraph\<close>

text \<open>The body of both loops: one keyframe is projected through the reference pose of its
  map (read with \<^verbatim>\<open>operator[]\<close>) and pushed onto the two sequences of the graph.\<close>

definition pushKeyFrame ::
  "('r, 'f, 't, 'se3, 'aff, 'raw, 'img) ext \<Rightarrow> ('f, 't, 'se3, 'img) engine \<Rightarrow> string \<Rightarrow> kf_ptr \<Rightarrow>
   'r map_graph \<times> (map_ptr \<rightharpoonup> 'aff) \<Rightarrow> 'r map_graph \<times> (map_ptr \<rightharpoonup> 'aff)" where
  "pushKeyFrame x e frame kf acc =
     (case acc of (graph, tbl) \<Rightarrow>
        (case refpose_at tbl (defaultAffine x) (GetMap e kf) of
           (ref, tbl1) \<Rightarrow>
             (graph\<lparr>poses := poses graph @
                        [\<lparr>ps_pose = transformPoseWithReferenceMsg x ref (GetPose e kf),
                          ps_frame_id = frame,
                          ps_stamp = secToStamp x (mTimeStamp e kf)\<rparr>],
                    poses_id := poses_id graph @ [mnId e kf]\<rparr>,
              tbl1)))"

definition getOptimizedPoseGraph ::
  "('r, 'f, 't, 'se3, 'aff, 'raw, 'img) ext \<Rightarrow> ('f, 't, 'se3, 'img) engine \<Rightarrow> ('r, 'aff) state \<Rightarrow>
   'r map_graph \<Rightarrow> bool \<Rightarrow> error + ('r map_graph \<times> ('r, 'aff) state)" where
  "getOptimizedPoseGraph x e s graph currentMapKFOnly =
     (if \<not> currentMapKFOnly then
        (case fold (\<lambda>cKf. pushKeyFrame x e (globalFrame s) (snd cKf)) (allKFs s)
                (graph, mapReferencePoses s) of
           (graph1, tbl1) \<Rightarrow> Inr (graph1, s\<lparr>mapReferencePoses := tbl1\<rparr>))
      else
        (case orbAtlas s of
           None \<Rightarrow> Inl NullAtlasDereference
         | Some atlas \<Rightarrow>
             (case fold (pushKeyFrame x e (globalFrame s)) (AtlasGetAllKeyFrames e atlas)
                     (graph, mapReferencePoses s) of
                (graph1, tbl1) \<Rightarrow> Inr (graph1, s\<lparr>mapReferencePoses := tbl1\<rparr>))))"

subsection \<open>handleIMU and the tracking calls\<close>

definition handleIMU :: "('r, 'aff) state \<Rightarrow> 'r imu_msg \<Rightarrow> ('r, 'aff) state" where
  "handleIMU s msgIMU = s\<lparr>imuBuf := imuBuf s @ [msgIMU]\<rparr>"

definition imuPoint :: "('r, 'f, 't, 'se3, 'aff, 'raw, 'img) ext \<Rightarrow> 'r imu_msg \<Rightarrow> ('f, 't) imu_point" where
  "imuPoint x m =
     \<lparr>point_a = \<lparr>vx = toFloat x (vx (linear_acceleration m)),
                 vy = toFloat x (vy (linear_acceleration m)),
                 vz = toFloat x (vz (linear_acceleration m))\<rparr>,
      point_w = \<lparr>vx = toFloat x (vx (angular_velocity m)),
                 vy = toFloat x (vy (angular_velocity m)),
                 vz = toFloat x (vz (angular_velocity m))\<rparr>,
      point_t = stampToSec x (imu_stamp m)\<rparr>"

text \<open>The \<^verbatim>\<open>while\<close> loop of trackRGBDi: the front of the queue is popped and pushed onto
  \<^verbatim>\<open>vImuMeas\<close> as long as the queue is not empty and its front is not later than
  \<open>tLim\<close>.\<close>

fun loadImu ::
  "('r, 'f, 't::linorder, 'se3, 'aff, 'raw, 'img) ext \<Rightarrow> 't \<Rightarrow> 'r imu_msg list \<Rightarrow>
   ('f, 't) imu_point list \<Rightarrow> ('f, 't) imu_point list \<times> 'r imu_msg list" where
  "loadImu x tLim [] vImuMeas = (vImuMeas, [])"
| "loadImu x tLim (front # buf) vImuMeas =
     (if stampToSec x (imu_stamp front) \<le> tLim
      then loadImu x tLim buf (vImuMeas @ [imuPoint x front])
      else (vImuMeas, front # buf))"

text \<open>
  What a tracking call yields: the returned flag, the output parameter \<^verbatim>\<open>Tcw\<close>, the
  inertial measurements handed to the engine (\<open>None\<close> when the engine was not called)
  and the members after the call.
\<close>

record ('r, 'f, 't, 'se3, 'aff) tracked =
  ok :: bool
  Tcw_out :: 'se3
  engine_input :: "('f, 't) imu_point list option"
  st :: "('r, 'aff) state"

definition trackRGBDi ::
  "('r::{zero,one}, 'f, 't::linorder, 'se3, 'aff, 'raw, 'img) ext \<Rightarrow> ('f, 't, 'se3, 'img) engine \<Rightarrow>
   ('r, 'aff) state \<Rightarrow> 'raw image_msg \<Rightarrow> 'raw image_msg \<Rightarrow> 'se3 \<Rightarrow>
   error + ('r, 'f, 't, 'se3, 'aff) tracked" where
  "trackRGBDi x e s msgRGB msgD Tcw =
     (let s1 = s\<lparr>orbAtlas := Some (GetAtlas e)\<rparr> in
      case toCvShare x msgRGB of
        None \<Rightarrow> Inr \<lparr>ok = False, Tcw_out = Tcw, engine_input = None, st = s1\<rparr>
      | Some cvRGB \<Rightarrow>
          (case toCvShare x msgD of
             None \<Rightarrow> Inr \<lparr>ok = False, Tcw_out = Tcw, engine_input = None, st = s1\<rparr>
           | Some cvD \<Rightarrow>
               (case (if imuBuf s1 \<noteq> []
                      then loadImu x (min (stampToSec x (image_stamp msgRGB))
                                          (stampToSec x (image_stamp msgD))) (imuBuf s1) []
                      else ([], imuBuf s1)) of
                  (vImuMeas, buf) \<Rightarrow>
                    (let s2 = s1\<lparr>imuBuf := buf\<rparr> in
                     if length (imuBuf s2) > 0 then
                       (let Tcw1 = TrackRGBD e cvRGB cvD (stampToSec x (image_stamp msgRGB)) vImuMeas;
                            currentTrackingState = GetTrackingState e
                        in if mergeDetected e then
                             Inr \<lparr>ok = False, Tcw_out = Tcw1, engine_input = Some vImuMeas, st = s2\<rparr>
                           else if currentTrackingState = 2 then
                             (case calculateReferencePoses x e s2 of
                                Inl err \<Rightarrow> Inl err
                              | Inr s3 \<Rightarrow>
                                  (case correctTrackedPose x e s3 Tcw1 of
                                     Inl err \<Rightarrow> Inl err
                                   | Inr s4 \<Rightarrow>
                                       Inr \<lparr>ok = True, Tcw_out = Tcw1,
                                            engine_input = Some vImuMeas,
                                            st = s4\<lparr>hasTracked := True\<rparr>\<rparr>))
                           else
                             Inr \<lparr>ok = False, Tcw_out = Tcw1, engine_input = Some vImuMeas, st = s2\<rparr>)
                     else
                       Inr \<lparr>ok = False, Tcw_out = Tcw, engine_input = None, st = s2\<rparr>))))"

text \<open>trackRGBD: the same without the inertial queue. Its body assigns neither
  \<^verbatim>\<open>orbAtlas_\<close> nor \<^verbatim>\<open>hasTracked_\<close>.\<close>

definition trackRGBD ::
  "('r::{zero,one}, 'f, 't, 'se3, 'aff, 'raw, 'img) ext \<Rightarrow> ('f, 't, 'se3, 'img) engine \<Rightarrow>
   ('r, 'aff) state \<Rightarrow> 'raw image_msg \<Rightarrow> 'raw image_msg \<Rightarrow> 'se3 \<Rightarrow>
   error + ('r, 'f, 't, 'se3, 'aff) tracked" where
  "trackRGBD x e s msgRGB msgD Tcw =
     (case toCvShare x msgRGB of
        None \<Rightarrow> Inr \<lparr>ok = False, Tcw_out = Tcw, engine_input = None, st = s\<rparr>
      | Some cvRGB \<Rightarrow>
          (case toCvShare x msgD of
             None \<Rightarrow> Inr \<lparr>ok = False, Tcw_out = Tcw, engine_input = None, st = s\<rparr>
           | Some cvD \<Rightarrow>
               (let Tcw1 = TrackRGBD e cvRGB cvD (stampToSec x (image_stamp msgRGB)) [];
                    currentTrackingState = GetTrackingState e
                in if mergeDetected e then
                     Inr \<lparr>ok = False, Tcw_out = Tcw1, engine_input = Some [], st = s\<rparr>
                   else if currentTrackingState = 2 then
                     (case calculateReferencePoses x e s of
                        Inl err \<Rightarrow> Inl err
                      | Inr s1 \<Rightarrow>
                          (case correctTrackedPose x e s1 Tcw1 of
                             Inl err \<Rightarrow> Inl err
                           | Inr s2 \<Rightarrow>
                               Inr \<lparr>ok = True, Tcw_out = Tcw1, engine_input = Some [], st = s2\<rparr>))
                   else
                     Inr \<lparr>ok = False, Tcw_out = Tcw1, engine_input = Some [], st = s\<rparr>)))"

section \<open>Notions used by the statements\<close>

text \<open>The bound of the drain for a frame pair: the earlier of the two stamps, in seconds;
  and the test of the loop against it.\<close>

definition frameLimit ::
  "('r, 'f, 't::linorder, 'se3, 'aff, 'raw, 'img) ext \<Rightarrow> 'raw image_msg \<Rightarrow> 'raw image_msg \<Rightarrow> 't" where
  "frameLimit x msgRGB msgD =
     min (stampToSec x (image_stamp msgRGB)) (stampToSec x (image_stamp msgD))"

definition notLater ::
  "('r, 'f, 't::linorder, 'se3, 'aff, 'raw, 'img) ext \<Rightarrow> 't \<Rightarrow> 'r imu_msg \<Rightarrow> bool" where
  "notLater x tLim m = (stampToSec x (imu_stamp m) \<le> tLim)"

text \<open>Every entry of an index is filed under the identifier of its keyframe.\<close>

definition keyed :: "('f, 't, 'se3, 'img) engine \<Rightarrow> (nat \<times> kf_ptr) list \<Rightarrow> bool" where
  "keyed e m = list_all (\<lambda>p. mnId e (snd p) = fst p) m"

text \<open>The pose the loop assigns to a root map, and the keyframe a later map is hung on:
  the index entry for the identifier before the \<^verbatim>\<open>GetInitKFid()\<close> of the map.\<close>

definition rootPose :: "('r::{zero,one}, 'f, 't, 'se3, 'aff, 'raw, 'img) ext \<Rightarrow> ('f, 't, 'se3, 'img) engine \<Rightarrow> 'r \<Rightarrow> 'r \<Rightarrow> map_ptr \<Rightarrow> 'aff" where
  "rootPose x e rX rY m = affMul x (poseOffset x rX rY) (se3ToAffine x (GetPose e (GetOriginKF e m)))"

definition parentKF :: "('f, 't, 'se3, 'img) engine \<Rightarrow> (nat \<times> kf_ptr) list \<Rightarrow> map_ptr \<Rightarrow> kf_ptr option" where
  "parentKF e idx m = kfs_find idx (GetInitKFid e m - 1)"

text \<open>The index of a forest, as calculateReferencePoses builds it.\<close>

definition forestIndex :: "('f, 't, 'se3, 'img) engine \<Rightarrow> atlas_ptr \<Rightarrow> (nat \<times> kf_ptr) list" where
  "forestIndex e atlas = makeKFIdPair e (sortMaps e (GetAllMaps e atlas))"

text \<open>The reference pose of a map after a resolution pass, if the pass ends and holds one.\<close>

definition resolved ::
  "('r::{zero,one}, 'f, 't, 'se3, 'aff, 'raw, 'img) ext \<Rightarrow> ('f, 't, 'se3, 'img) engine \<Rightarrow>
   ('r, 'aff) state \<Rightarrow> map_ptr \<Rightarrow> 'aff option" where
  "resolved x e s m =
     (case calculateReferencePoses x e s of Inl err \<Rightarrow> None | Inr s' \<Rightarrow> mapReferencePoses s' m)"


text \<open>The two tracking calls read alike from \<^verbatim>\<open>GetTrackingState()\<close> on. That common
  part, for the proofs; \<open>mark\<close> tells whether the success branch sets \<^verbatim>\<open>hasTracked_\<close>
  (trackRGBDi) or not (trackRGBD).\<close>

definition afterTrack ::
  "('r::{zero,one}, 'f, 't, 'se3, 'aff, 'raw, 'img) ext \<Rightarrow> ('f, 't, 'se3, 'img) engine \<Rightarrow>
   ('r, 'aff) state \<Rightarrow> 'se3 \<Rightarrow> ('f, 't) imu_point list \<Rightarrow> bool \<Rightarrow>
   error + ('r, 'f, 't, 'se3, 'aff) tracked" where
  "afterTrack x e s Tcw vImuMeas mark =
     (let currentTrackingState = GetTrackingState e in
      if mergeDetected e then
        Inr \<lparr>ok = False, Tcw_out = Tcw, engine_input = Some vImuMeas, st = s\<rparr>
      else if currentTrackingState = 2 then
        (case calculateReferencePoses x e s of
           Inl err \<Rightarrow> Inl err
         | Inr s1 \<Rightarrow>
             (case correctTrackedPose x e s1 Tcw of
                Inl err \<Rightarrow> Inl err
              | Inr s2 \<Rightarrow>
                  Inr \<lparr>ok = True, Tcw_out = Tcw, engine_input = Some vImuMeas,
                       st = (if mark then s2\<lparr>hasTracked := True\<rparr> else s2)\<rparr>))
      else
        Inr \<lparr>ok = False, Tcw_out = Tcw, engine_input = Some vImuMeas, st = s\<rparr>)"

text \<open>
  A run of the inertial interface: inertial messages arrive (handleIMU) and frame pairs are
  tracked (trackRGBDi), each against the engine as it is at that call. For every frame pair
  the run records the samples that left the front of the queue during the call, the bound
  of the drain, whether both images decoded, how many samples were still queued after the
  call, and what the engine was handed.
\<close>

datatype ('r, 'f, 't, 'se3, 'img, 'raw) event =
  ImuArrives "'r imu_msg"
| FramePair "('f, 't, 'se3, 'img) engine" "'raw image_msg" "'raw image_msg"

record ('r, 'f, 't) frame_log =
  removed :: "'r imu_msg list"
  bound :: 't
  decoded :: bool
  queued :: nat
  handed :: "('f, 't) imu_point list option"

fun arrivals :: "('r, 'f, 't, 'se3, 'img, 'raw) event list \<Rightarrow> 'r imu_msg list" where
  "arrivals [] = []"
| "arrivals (ImuArrives m # evs) = m # arrivals evs"
| "arrivals (FramePair e msgRGB msgD # evs) = arrivals evs"

fun runInertial ::
  "('r::{zero,one}, 'f, 't::linorder, 'se3, 'aff, 'raw, 'img) ext \<Rightarrow> ('r, 'aff) state \<Rightarrow> 'se3 \<Rightarrow>
   ('r, 'f, 't, 'se3, 'img, 'raw) event list \<Rightarrow>
   error + (('r, 'f, 't) frame_log list \<times> ('r, 'aff) state)" where
  "runInertial x s Tcw [] = Inr ([], s)"
| "runInertial x s Tcw (ImuArrives m # evs) = runInertial x (handleIMU s m) Tcw evs"
| "runInertial x s Tcw (FramePair e msgRGB msgD # evs) =
     (case trackRGBDi x e s msgRGB msgD Tcw of
        Inl err \<Rightarrow> Inl err
      | Inr r \<Rightarrow>
          (case runInertial x (st r) (Tcw_out r) evs of
             Inl err \<Rightarrow> Inl err
           | Inr (logs, s') \<Rightarrow>
               Inr (\<lparr>removed = take (length (imuBuf s) - length (imuBuf (st r))) (imuBuf s),
                     bound = frameLimit x msgRGB msgD,
                     decoded = (toCvShare x msgRGB \<noteq> None \<and> toCvShare x msgD \<noteq> None),
                     queued = length (imuBuf (st r)),
                     handed = engine_input r\<rparr> # logs, s')))"

section \<open>Concrete collaborators for the examples\<close>

text \<open>Poses on a line: a pose is an integer offset, composition is addition. Times are
  real seconds. An image message decodes if it carries data. A default-constructed
  transform happens to hold 0.\<close>

definition lineExt :: "(int, int, real, int, int, unit option, unit) ext" where
  "lineExt =
     \<lparr>stampToSec = (\<lambda>n. real n / 1000000000),
      secToStamp = (\<lambda>t. nat \<lfloor>t * 1000000000\<rfloor>),
      toFloat = (\<lambda>r. r),
      se3ToAffine = (\<lambda>p. p),
      transformPoseWithReference = (\<lambda>a p. a + p),
      transformPoseWithReferenceMsg =
        (\<lambda>a p. \<lparr>pose_position = \<lparr>vx = a + p, vy = 0, vz = 0\<rparr>,
                 pose_orientation = \<lparr>qw = 1, qx = 0, qy = 0, qz = 0\<rparr>\<rparr>),
      toCvShare = image_data,
      affineOf = (\<lambda>p q. vx p),
      affMul = (\<lambda>a b. a + b),
      affInverse = (\<lambda>a. - a),
      toMsg = (\<lambda>a. \<lparr>pose_position = \<lparr>vx = a, vy = 0, vz = 0\<rparr>,
                     pose_orientation = \<lparr>qw = 1, qx = 0, qy = 0, qz = 0\<rparr>\<rparr>),
      defaultAffine = (\<lambda>k. 0)\<rparr>"

definition imuAt :: "stamp \<Rightarrow> int imu_msg" where
  "imuAt n = \<lparr>imu_stamp = n,
              linear_acceleration = \<lparr>vx = 0, vy = 0, vz = 0\<rparr>,
              angular_velocity = \<lparr>vx = 0, vy = 0, vz = 0\<rparr>\<rparr>"

definition imageAt :: "stamp \<Rightarrow> unit option image_msg" where
  "imageAt n = \<lparr>image_stamp = n, image_data = Some ()\<rparr>"

text \<open>An atlas at address 7 with the single map 10, which is the root and holds the
  keyframes 100 and 103 with the identifiers 0 and 3.\<close>

definition oneMapEngine :: "int \<Rightarrow> bool \<Rightarrow> (int, real, int, unit) engine" where
  "oneMapEngine trackingState merging =
     \<lparr>GetAtlas = 7,
      GetAllMaps = (\<lambda>a. [10]),
      GetCurrentMap = (\<lambda>a. 10),
      AtlasGetAllKeyFrames = (\<lambda>a. [100, 103]),
      GetInitKFid = (\<lambda>m. 0),
      GetOriginKF = (\<lambda>m. 100),
      GetAllKeyFrames = (\<lambda>m. [100, 103]),
      mnId = (\<lambda>kf. kf - 100),
      GetPose = (\<lambda>kf. if kf = 100 then 0 else 3),
      GetMap = (\<lambda>kf. 10),
      mTimeStamp = (\<lambda>kf. 1),
      TrackRGBD = (\<lambda>im depth ts vImuMeas. 7),
      GetTrackingState = trackingState,
      mergeDetected = merging\<rparr>"

text \<open>The members right after construction, with a given content of the queue.\<close>

definition freshState :: "int imu_msg list \<Rightarrow> (int, int) state" where
  "freshState buf =
     \<lparr>robotX = 2, robotY = 0, globalFrame = ''map'', odomFrame = ''odom'',
      orbAtlas = None, mapReferencePoses = Map.empty, allKFs = [],
      latestTrackedPose = 0, hasTracked = False, imuBuf = buf\<rparr>"

text \<open>An atlas with two maps, listed with the younger one first: map 10 is the root with
  the keyframes 104 and 100 (in that order), map 11 was created at keyframe identifier 5
  and holds keyframe 105. A keyframe at address \<open>a\<close> has the identifier \<open>a - 100\<close>, and
  its pose is ten times its identifier.\<close>

definition twoMapEngine :: "(int, real, int, unit) engine" where
  "twoMapEngine =
     \<lparr>GetAtlas = 7,
      GetAllMaps = (\<lambda>a. [11, 10]),
      GetCurrentMap = (\<lambda>a. 11),
      AtlasGetAllKeyFrames = (\<lambda>a. [105]),
      GetInitKFid = (\<lambda>m. if m = 10 then 0 else 5),
      GetOriginKF = (\<lambda>m. if m = 10 then 100 else 105),
      GetAllKeyFrames = (\<lambda>m. if m = 10 then [104, 100] else [105]),
      mnId = (\<lambda>kf. kf - 100),
      GetPose = (\<lambda>kf. 10 * (int kf - 100)),
      GetMap = (\<lambda>kf. if kf < 105 then 10 else 11),
      mTimeStamp = (\<lambda>kf. real kf),
      TrackRGBD = (\<lambda>im depth ts vImuMeas. 7),
      GetTrackingState = 2,
      mergeDetected = False\<rparr>"

definition emptyGraph :: "int map_graph" where
  "emptyGraph = \<lparr>poses = [], poses_id = []\<rparr>"

text \<open>The same atlas after keyframe 104 has left map 10: no keyframe has the identifier 4.\<close>

definition culledEngine :: "(int, real, int, unit) engine" where
  "culledEngine = twoMapEngine\<lparr>GetAllKeyFrames := (\<lambda>m. if m = 10 then [100] else [105])\<rparr>"

text \<open>An atlas with three maps created at the identifiers 0, 5 and 10. Keyframe 104
  (identifier 4) now belongs to the youngest map 12, keyframe 109 (identifier 9) to map 11.
  The pose of a keyframe is its identifier.\<close>

definition adoptedEngine :: "(int, real, int, unit) engine" where
  "adoptedEngine =
     \<lparr>GetAtlas = 7,
      GetAllMaps = (\<lambda>a. [10, 11, 12]),
      GetCurrentMap = (\<lambda>a. 12),
      AtlasGetAllKeyFrames = (\<lambda>a. [110, 104]),
      GetInitKFid = (\<lambda>m. if m = 10 then 0 else if m = 11 then 5 else 10),
      GetOriginKF = (\<lambda>m. if m = 10 then 100 else if m = 11 then 105 else 110),
      GetAllKeyFrames = (\<lambda>m. if m = 10 then [100] else if m = 11 then [105, 109] else [110, 104]),
      mnId = (\<lambda>kf. kf - 100),
      GetPose = (\<lambda>kf. int kf - 100),
      GetMap = (\<lambda>kf. if kf = 100 then 10 else if kf = 105 \<or> kf = 109 then 11 else 12),
      mTimeStamp = (\<lambda>kf. real kf),
      TrackRGBD = (\<lambda>im depth ts vImuMeas. 7),
      GetTrackingState = 2,
      mergeDetected = False\<rparr>"

text \<open>The members once the atlas pointer is held.\<close>

definition readyState :: "(int, int) state" where
  "readyState = (freshState [])\<lparr>orbAtlas := Some 7\<rparr>"

text \<open>An image message that cannot be decoded.\<close>

definition brokenImage :: "stamp \<Rightarrow> unit option image_msg" where
  "brokenImage n = \<lparr>image_stamp = n, image_data = None\<rparr>"

definition odomAt :: "stamp \<Rightarrow> int \<Rightarrow> int odometry" where
  "odomAt n p = \<lparr>odom_stamp = n,
                 odom_position = \<lparr>vx = p, vy = 0, vz = 0\<rparr>,
                 odom_orientation = \<lparr>qw = 1, qx = 0, qy = 0, qz = 0\<rparr>\<rparr>"

definition staleTF :: "int transform_stamped" where
  "staleTF = \<lparr>tf_stamp = 0, tf_frame_id = ''old'', tf_child_frame_id = ''old'',
              tf_translation = \<lparr>vx = 99, vy = 99, vz = 99\<rparr>,
              tf_rotation = \<lparr>qw = 0, qx = 0, qy = 0, qz = 1\<rparr>\<rparr>"

section \<open>First facts about the tracking calls\<close>

lemma decode_imageAt: "toCvShare lineExt (imageAt n) = Some ()"
  by (simp add: lineExt_def imageAt_def)

lemma decode_brokenImage: "toCvShare lineExt (brokenImage n) = None"
  by (simp add: lineExt_def brokenImage_def)

lemma trackRGBD_undecoded:
  "toCvShare x msgRGB = None \<or> toCvShare x msgD = None \<Longrightarrow>
   trackRGBD x e s msgRGB msgD Tcw =
     Inr \<lparr>ok = False, Tcw_out = Tcw, engine_input = None, st = s\<rparr>"
  by (auto simp: trackRGBD_def split: option.splits)

lemma trackRGBDi_undecoded:
  "toCvShare x msgRGB = None \<or> toCvShare x msgD = None \<Longrightarrow>
   trackRGBDi x e s msgRGB msgD Tcw =
     Inr \<lparr>ok = False, Tcw_out = Tcw, engine_input = None,
          st = s\<lparr>orbAtlas := Some (GetAtlas e)\<rparr>\<rparr>"
  by (auto simp: trackRGBDi_def Let_def split: option.splits)

lemma afterTrack_merging:
  "mergeDetected e \<Longrightarrow>
   afterTrack x e s T v mark = Inr \<lparr>ok = False, Tcw_out = T, engine_input = Some v, st = s\<rparr>"
  by (simp add: afterTrack_def Let_def)

lemma trackRGBD_decoded:
  assumes "toCvShare x msgRGB = Some cvRGB" and "toCvShare x msgD = Some cvD"
  shows "trackRGBD x e s msgRGB msgD Tcw =
     afterTrack x e s (TrackRGBD e cvRGB cvD (stampToSec x (image_stamp msgRGB)) []) [] False"
  using assms by (simp add: trackRGBD_def afterTrack_def Let_def split: sum.splits)

section \<open>The inertial queue\<close>

lemma loadImu_takeWhile_dropWhile:
  "loadImu x tLim buf acc =
     (acc @ map (imuPoint x) (takeWhile (notLater x tLim) buf), dropWhile (notLater x tLim) buf)"
  by (induction buf arbitrary: acc) (simp_all add: notLater_def)

lemma afterTrack_imuBuf:
  "afterTrack x e s T v mark = Inr r \<Longrightarrow> imuBuf (st r) = imuBuf s"
  by (auto simp: afterTrack_def calculateReferencePoses_def correctTrackedPose_def Let_def
      split: if_splits sum.splits option.splits prod.splits)

lemma afterTrack_engine_input:
  "afterTrack x e s T v mark = Inr r \<Longrightarrow> engine_input r = Some v"
  by (auto simp: afterTrack_def Let_def split: if_splits sum.splits)

text \<open>trackRGBDi once both images are decoded: the queue keeps what is left after the
  longest prefix of samples not later than the bound, and the engine is called if and only
  if something is left.\<close>

lemma trackRGBDi_decoded:
  assumes "toCvShare x msgRGB = Some cvRGB" and "toCvShare x msgD = Some cvD"
  shows "trackRGBDi x e s msgRGB msgD Tcw =
     (let buf = dropWhile (notLater x (frameLimit x msgRGB msgD)) (imuBuf s);
          vImuMeas = map (imuPoint x) (takeWhile (notLater x (frameLimit x msgRGB msgD)) (imuBuf s));
          s2 = s\<lparr>orbAtlas := Some (GetAtlas e), imuBuf := buf\<rparr>
      in if buf \<noteq> [] then
           afterTrack x e s2
             (TrackRGBD e cvRGB cvD (stampToSec x (image_stamp msgRGB)) vImuMeas) vImuMeas True
         else Inr \<lparr>ok = False, Tcw_out = Tcw, engine_input = None, st = s2\<rparr>)"
  using assms
  by (cases "imuBuf s")
     (simp_all add: trackRGBDi_def afterTrack_def Let_def loadImu_takeWhile_dropWhile
        frameLimit_def split: sum.splits)

text \<open>
  C7. In an inertial tracking call that decodes both images, the drain removes from the
  queue exactly the longest prefix of samples whose time is not later than the earlier of
  the image and depth stamps: the queue before the call is that prefix followed by the
  queue after the call, every sample later than the bound is still queued, and when a
  sample is left the engine receives the removed samples in queue order. With the queue
  [1.0, 1.2, 1.5, 2.0] and a frame pair at (1.6, 1.6), [1.0, 1.2, 1.5] are consumed in
  that order and [2.0] remains.
\<close>

theorem trackRGBDi_drains_prefix:
  assumes "toCvShare x msgRGB = Some cvRGB" and "toCvShare x msgD = Some cvD"
    and "trackRGBDi x e s msgRGB msgD Tcw = Inr r"
  shows "imuBuf s = takeWhile (notLater x (frameLimit x msgRGB msgD)) (imuBuf s) @ imuBuf (st r)
       \<and> imuBuf (st r) = dropWhile (notLater x (frameLimit x msgRGB msgD)) (imuBuf s)
       \<and> (imuBuf (st r) \<noteq> [] \<longrightarrow>
            engine_input r =
              Some (map (imuPoint x) (takeWhile (notLater x (frameLimit x msgRGB msgD)) (imuBuf s))))
       \<and> (\<forall>m \<in> set (imuBuf s).
            \<not> notLater x (frameLimit x msgRGB msgD) m \<longrightarrow> m \<in> set (imuBuf (st r)))"
proof -
  let ?P = "notLater x (frameLimit x msgRGB msgD)"
  have buf: "imuBuf (st r) = dropWhile ?P (imuBuf s)"
    using assms(3) unfolding trackRGBDi_decoded[OF assms(1,2)] Let_def
    by (auto split: if_splits dest!: afterTrack_imuBuf)
  have inp: "imuBuf (st r) \<noteq> [] \<longrightarrow>
      engine_input r = Some (map (imuPoint x) (takeWhile ?P (imuBuf s)))"
    using assms(3) buf unfolding trackRGBDi_decoded[OF assms(1,2)] Let_def
    by (auto split: if_splits dest!: afterTrack_engine_input)
  have later: "\<forall>m \<in> set (imuBuf s). \<not> ?P m \<longrightarrow> m \<in> set (imuBuf (st r))"
  proof (intro ballI impI)
    fix m assume "m \<in> set (imuBuf s)" and "\<not> ?P m"
    then have "m \<in> set (takeWhile ?P (imuBuf s) @ dropWhile ?P (imuBuf s))" by simp
    with \<open>\<not> ?P m\<close> show "m \<in> set (imuBuf (st r))"
      unfolding buf set_append by (auto dest: set_takeWhileD)
  qed
  from buf inp later show ?thesis by simp
qed

theorem trackRGBDi_drains_prefix_witness:
  "toCvShare lineExt (imageAt 1600000000) = Some ()
   \<and> (\<exists>r. trackRGBDi lineExt (oneMapEngine 2 False)
            (freshState [imuAt 1000000000, imuAt 1200000000, imuAt 1500000000, imuAt 2000000000])
            (imageAt 1600000000) (imageAt 1600000000) 0 = Inr r
          \<and> imuBuf (st r) = [imuAt 2000000000]
          \<and> engine_input r =
              Some (map (imuPoint lineExt) [imuAt 1000000000, imuAt 1200000000, imuAt 1500000000]))"
proof -
  let ?buf = "[imuAt 1000000000, imuAt 1200000000, imuAt 1500000000, imuAt 2000000000]"
  let ?P = "notLater lineExt (frameLimit lineExt (imageAt 1600000000) (imageAt 1600000000))"
  have tw: "takeWhile ?P ?buf = [imuAt 1000000000, imuAt 1200000000, imuAt 1500000000]"
    by (simp add: notLater_def frameLimit_def lineExt_def imuAt_def imageAt_def)
  have dw: "dropWhile ?P ?buf = [imuAt 2000000000]"
    by (simp add: notLater_def frameLimit_def lineExt_def imuAt_def imageAt_def)
  have "\<exists>r. trackRGBDi lineExt (oneMapEngine 2 False) (freshState ?buf)
      (imageAt 1600000000) (imageAt 1600000000) 0 = Inr r"
    apply (simp add: trackRGBDi_decoded[OF decode_imageAt decode_imageAt] Let_def)
    apply (simp add: freshState_def tw dw)
    apply (simp add: afterTrack_def oneMapEngine_def)
    apply (simp add: calculateReferencePoses_def sortMaps_def makeKFIdPair_def)
    apply (simp add: kfs_find_def poseOffset_def correctTrackedPose_def refpose_at_def)
    done
  then obtain r where run: "trackRGBDi lineExt (oneMapEngine 2 False) (freshState ?buf)
      (imageAt 1600000000) (imageAt 1600000000) 0 = Inr r" ..
  have buf: "imuBuf (freshState ?buf) = ?buf"
    by (simp add: freshState_def)
  note d = trackRGBDi_drains_prefix[OF decode_imageAt decode_imageAt run]
  have left: "imuBuf (st r) = [imuAt 2000000000]"
    using d[THEN conjunct2, THEN conjunct1] unfolding buf dw .
  have inp: "engine_input r =
      Some (map (imuPoint lineExt) [imuAt 1000000000, imuAt 1200000000, imuAt 1500000000])"
    using d[THEN conjunct2, THEN conjunct2, THEN conjunct1] unfolding left buf tw by simp
  from decode_imageAt run left inp show ?thesis by blast
qed


section \<open>Runs of the inertial interface\<close>

lemma trackRGBDi_queue:
  assumes "trackRGBDi x e s msgRGB msgD Tcw = Inr r"
  shows "\<exists>rem. imuBuf s = rem @ imuBuf (st r)
          \<and> list_all (notLater x (frameLimit x msgRGB msgD)) rem
          \<and> engine_input r =
              (if (toCvShare x msgRGB \<noteq> None \<and> toCvShare x msgD \<noteq> None) \<and> 0 < length (imuBuf (st r))
               then Some (map (imuPoint x) rem) else None)"
proof (cases "toCvShare x msgRGB = None \<or> toCvShare x msgD = None")
  case True
  from trackRGBDi_undecoded[OF True, of e s Tcw] assms
  have "imuBuf (st r) = imuBuf s" and "engine_input r = None" by auto
  with True have "imuBuf s = [] @ imuBuf (st r) \<and> list_all (notLater x (frameLimit x msgRGB msgD)) []
      \<and> engine_input r =
          (if (toCvShare x msgRGB \<noteq> None \<and> toCvShare x msgD \<noteq> None) \<and> 0 < length (imuBuf (st r))
           then Some (map (imuPoint x) []) else None)"
    by auto
  then show ?thesis by blast
next
  case False
  then obtain cvRGB cvD where dec: "toCvShare x msgRGB = Some cvRGB" "toCvShare x msgD = Some cvD"
    by auto
  let ?P = "notLater x (frameLimit x msgRGB msgD)"
  have buf: "imuBuf (st r) = dropWhile ?P (imuBuf s)"
    using assms unfolding trackRGBDi_decoded[OF dec] Let_def
    by (auto split: if_splits dest!: afterTrack_imuBuf)
  have inp: "engine_input r =
      (if 0 < length (imuBuf (st r)) then Some (map (imuPoint x) (takeWhile ?P (imuBuf s))) else None)"
    using assms buf unfolding trackRGBDi_decoded[OF dec] Let_def
    by (auto split: if_splits dest!: afterTrack_engine_input)
  have "list_all ?P (takeWhile ?P (imuBuf s))"
    by (auto simp: list_all_iff dest: set_takeWhileD)
  with buf inp dec have "imuBuf s = takeWhile ?P (imuBuf s) @ imuBuf (st r)
      \<and> list_all ?P (takeWhile ?P (imuBuf s))
      \<and> engine_input r =
          (if (toCvShare x msgRGB \<noteq> None \<and> toCvShare x msgD \<noteq> None) \<and> 0 < length (imuBuf (st r))
           then Some (map (imuPoint x) (takeWhile ?P (imuBuf s))) else None)"
    by simp
  then show ?thesis by blast
qed

text \<open>
  C2. Along any run of inertial tracking calls with inertial messages arriving in between,
  the samples removed for the frames, in the order of the frames, followed by the queue at
  the end, are exactly the queue at the start followed by the arrivals: the samples leave
  in arrival order and none leaves twice. For every frame, each removed sample is not later
  than the earlier of the image and depth stamps; the engine is called for the frame
  exactly when both images decode and a sample is still queued after the drain, and it is
  then handed exactly the removed samples in that order. So no sample is handed to the
  engine for two frames.
\<close>

theorem inertial_samples_leave_once_in_order:
  assumes "runInertial x s Tcw evs = Inr (logs, s')"
  shows "concat (map removed logs) @ imuBuf s' = imuBuf s @ arrivals evs
       \<and> list_all (\<lambda>lg. list_all (\<lambda>m. stampToSec x (imu_stamp m) \<le> bound lg) (removed lg)
                        \<and> handed lg = (if decoded lg \<and> 0 < queued lg
                                       then Some (map (imuPoint x) (removed lg)) else None))
           logs"
  using assms
proof (induction evs arbitrary: s Tcw logs)
  case Nil
  then show ?case by simp
next
  case (Cons ev evs)
  show ?case
  proof (cases ev)
    case (ImuArrives m)
    with Cons.prems have "runInertial x (handleIMU s m) Tcw evs = Inr (logs, s')" by simp
    from Cons.IH[OF this] ImuArrives show ?thesis by (simp add: handleIMU_def)
  next
    case (FramePair e msgRGB msgD)
    with Cons.prems obtain r logs1 where call: "trackRGBDi x e s msgRGB msgD Tcw = Inr r"
      and rest: "runInertial x (st r) (Tcw_out r) evs = Inr (logs1, s')"
      and logs: "logs = \<lparr>removed = take (length (imuBuf s) - length (imuBuf (st r))) (imuBuf s),
                          bound = frameLimit x msgRGB msgD,
                          decoded = (toCvShare x msgRGB \<noteq> None \<and> toCvShare x msgD \<noteq> None),
                          queued = length (imuBuf (st r)),
                          handed = engine_input r\<rparr> # logs1"
      by (auto split: sum.splits)
    from trackRGBDi_queue[OF call] obtain rem where rem: "imuBuf s = rem @ imuBuf (st r)"
      and le: "list_all (notLater x (frameLimit x msgRGB msgD)) rem"
      and inp: "engine_input r =
          (if (toCvShare x msgRGB \<noteq> None \<and> toCvShare x msgD \<noteq> None) \<and> 0 < length (imuBuf (st r))
           then Some (map (imuPoint x) rem) else None)"
      by blast
    have "length (imuBuf s) - length (imuBuf (st r)) = length rem"
      by (subst rem) simp
    then have tk: "take (length (imuBuf s) - length (imuBuf (st r))) (imuBuf s) = rem"
      by (subst (2) rem) simp
    from Cons.IH[OF rest] have ih1: "concat (map removed logs1) @ imuBuf s' = imuBuf (st r) @ arrivals evs"
      and ih2: "list_all (\<lambda>lg. list_all (\<lambda>m. stampToSec x (imu_stamp m) \<le> bound lg) (removed lg)
                        \<and> handed lg = (if decoded lg \<and> 0 < queued lg
                                       then Some (map (imuPoint x) (removed lg)) else None)) logs1"
      by simp_all
    have "concat (map removed logs) @ imuBuf s' = imuBuf s @ arrivals (ev # evs)"
      unfolding logs FramePair using ih1 tk rem by simp
    moreover have "list_all (\<lambda>lg. list_all (\<lambda>m. stampToSec x (imu_stamp m) \<le> bound lg) (removed lg)
                        \<and> handed lg = (if decoded lg \<and> 0 < queued lg
                                       then Some (map (imuPoint x) (removed lg)) else None)) logs"
      unfolding logs using ih2 le inp tk by (simp add: list_all_iff notLater_def)
    ultimately show ?thesis by simp
  qed
qed

lemma lost_fields:
  "mergeDetected (oneMapEngine 3 False) = False" "GetTrackingState (oneMapEngine 3 False) = 3"
  "GetAtlas (oneMapEngine ts mg) = 7"
  by (simp_all add: oneMapEngine_def)

lemma notLater_line:
  "notLater lineExt (frameLimit lineExt (imageAt a) (imageAt a)) (imuAt n) = (n \<le> a)"
  by (simp add: notLater_def frameLimit_def lineExt_def imuAt_def imageAt_def)

lemma lost_frame_1:
  "trackRGBDi lineExt (oneMapEngine 3 False) (freshState [imuAt 1000000000, imuAt 3000000000])
     (imageAt 2000000000) (imageAt 2000000000) 0 =
   Inr \<lparr>ok = False, Tcw_out = 7, engine_input = Some [imuPoint lineExt (imuAt 1000000000)],
        st = (freshState [imuAt 3000000000])\<lparr>orbAtlas := Some 7\<rparr>\<rparr>"
proof -
  have buf: "imuBuf (freshState b) = b" for b :: "int imu_msg list"
    by (simp add: freshState_def)
  show ?thesis
    apply (simp add: trackRGBDi_decoded[OF decode_imageAt decode_imageAt] Let_def buf notLater_line)
    apply (simp add: afterTrack_def lost_fields)
    apply (simp add: freshState_def oneMapEngine_def)
    done
qed

lemma lost_frame_2:
  "trackRGBDi lineExt (oneMapEngine 3 False)
     ((freshState [imuAt 3000000000, imuAt 4000000000])\<lparr>orbAtlas := Some 7\<rparr>)
     (imageAt 3500000000) (imageAt 3500000000) 7 =
   Inr \<lparr>ok = False, Tcw_out = 7, engine_input = Some [imuPoint lineExt (imuAt 3000000000)],
        st = (freshState [imuAt 4000000000])\<lparr>orbAtlas := Some 7\<rparr>\<rparr>"
proof -
  have buf: "imuBuf ((freshState b)\<lparr>orbAtlas := Some 7\<rparr>) = b" for b :: "int imu_msg list"
    by (simp add: freshState_def)
  show ?thesis
    apply (simp add: trackRGBDi_decoded[OF decode_imageAt decode_imageAt] Let_def buf notLater_line)
    apply (simp add: afterTrack_def lost_fields)
    apply (simp add: freshState_def oneMapEngine_def)
    done
qed

lemma emptied_frame:
  "trackRGBDi lineExt (oneMapEngine 2 False) (freshState [imuAt 1000000000])
     (imageAt 2000000000) (imageAt 2000000000) 0 =
   Inr \<lparr>ok = False, Tcw_out = 0, engine_input = None,
        st = (freshState [])\<lparr>orbAtlas := Some 7\<rparr>\<rparr>"
proof -
  have buf: "imuBuf (freshState b) = b" for b :: "int imu_msg list"
    by (simp add: freshState_def)
  show ?thesis
    apply (simp add: trackRGBDi_decoded[OF decode_imageAt decode_imageAt] Let_def buf notLater_line)
    apply (simp add: freshState_def oneMapEngine_def)
    done
qed

theorem inertial_samples_leave_once_in_order_witness:
  "\<exists>logs s'.
     runInertial lineExt (freshState []) 0
       [ImuArrives (imuAt 1000000000), ImuArrives (imuAt 3000000000),
        FramePair (oneMapEngine 3 False) (imageAt 2000000000) (imageAt 2000000000),
        ImuArrives (imuAt 4000000000),
        FramePair (oneMapEngine 3 False) (imageAt 3500000000) (imageAt 3500000000)] = Inr (logs, s')
     \<and> map removed logs = [[imuAt 1000000000], [imuAt 3000000000]]
     \<and> map handed logs = [Some [imuPoint lineExt (imuAt 1000000000)],
                            Some [imuPoint lineExt (imuAt 3000000000)]]
     \<and> concat (map removed logs) @ imuBuf s'
         = [imuAt 1000000000, imuAt 3000000000, imuAt 4000000000]"
proof -
  let ?evs = "[ImuArrives (imuAt 1000000000), ImuArrives (imuAt 3000000000),
        FramePair (oneMapEngine 3 False) (imageAt 2000000000) (imageAt 2000000000),
        ImuArrives (imuAt 4000000000),
        FramePair (oneMapEngine 3 False) (imageAt 3500000000) (imageAt 3500000000)]"
  let ?logs = "[\<lparr>removed = [imuAt 1000000000],
                 bound = frameLimit lineExt (imageAt 2000000000) (imageAt 2000000000),
                 decoded = True, queued = 1,
                 handed = Some [imuPoint lineExt (imuAt 1000000000)]\<rparr>,
               \<lparr>removed = [imuAt 3000000000],
                 bound = frameLimit lineExt (imageAt 3500000000) (imageAt 3500000000),
                 decoded = True, queued = 1,
                 handed = Some [imuPoint lineExt (imuAt 3000000000)]\<rparr>]"
  let ?s' = "(freshState [imuAt 4000000000])\<lparr>orbAtlas := Some 7\<rparr>"
  have h1: "handleIMU (handleIMU (freshState []) (imuAt 1000000000)) (imuAt 3000000000)
      = freshState [imuAt 1000000000, imuAt 3000000000]"
    by (simp add: handleIMU_def freshState_def)
  have h2: "handleIMU ((freshState [imuAt 3000000000])\<lparr>orbAtlas := Some 7\<rparr>) (imuAt 4000000000)
      = (freshState [imuAt 3000000000, imuAt 4000000000])\<lparr>orbAtlas := Some 7\<rparr>"
    by (simp add: handleIMU_def freshState_def)
  have b: "imuBuf (freshState b) = b" "imuBuf ((freshState b)\<lparr>orbAtlas := Some 7\<rparr>) = b"
    for b :: "int imu_msg list"
    by (simp_all add: freshState_def)
  have run: "runInertial lineExt (freshState []) 0 ?evs = Inr (?logs, ?s')"
    by (simp add: h1 lost_frame_1 h2 lost_frame_2 b decode_imageAt)
  from inertial_samples_leave_once_in_order[OF run]
  have "concat (map removed ?logs) @ imuBuf ?s' = imuBuf (freshState []) @ arrivals ?evs"
    by (rule conjunct1)
  then have "concat (map removed ?logs) @ imuBuf ?s'
      = [imuAt 1000000000, imuAt 3000000000, imuAt 4000000000]"
    by (simp add: b)
  with run show ?thesis by simp
qed

text \<open>
  The engine is called only when a sample is still queued after the drain. With one sample
  at 1.0 queued and a frame pair at (2.0, 2.0), the sample leaves the queue and the engine
  is not called: the sample is handed to no frame.
\<close>

theorem drained_samples_dropped_counterexample:
  "runInertial lineExt (freshState [imuAt 1000000000]) 0
     [FramePair (oneMapEngine 2 False) (imageAt 2000000000) (imageAt 2000000000)] =
   Inr ([\<lparr>removed = [imuAt 1000000000],
          bound = frameLimit lineExt (imageAt 2000000000) (imageAt 2000000000),
          decoded = True, queued = 0,
          handed = None\<rparr>],
        (freshState [])\<lparr>orbAtlas := Some 7\<rparr>)"
  apply (simp add: emptied_frame decode_imageAt)
  apply (simp add: freshState_def)
  done
section \<open>The keyframe index and the pose graph\<close>

lemma kfs_assign_keys: "fst ` set (kfs_assign k v m) = insert k (fst ` set m)"
  by (induction m) auto

lemma kfs_assign_ascending:
  "sorted_wrt (<) (map fst m) \<Longrightarrow> sorted_wrt (<) (map fst (kfs_assign k v m))"
proof (induction m)
  case Nil
  then show ?case by simp
next
  case (Cons p m)
  have "\<forall>q \<in> set (kfs_assign k v m). fst p < fst q" if "fst p < k"
  proof
    fix q assume "q \<in> set (kfs_assign k v m)"
    then have "fst q \<in> insert k (fst ` set m)"
      using kfs_assign_keys[of k v m] by blast
    with Cons.prems that show "fst p < fst q" by auto
  qed
  with Cons show ?case by (auto simp: not_less)
qed

lemma kfs_assign_keyed: "keyed e m \<Longrightarrow> mnId e kf = k \<Longrightarrow> keyed e (kfs_assign k kf m)"
  by (induction m) (auto simp: keyed_def)

lemma insert_keyframes_inv:
  "sorted_wrt (<) (map fst m) \<and> keyed e m \<Longrightarrow>
   sorted_wrt (<) (map fst (fold (\<lambda>kf. kfs_assign (mnId e kf) kf) kfs m))
   \<and> keyed e (fold (\<lambda>kf. kfs_assign (mnId e kf) kf) kfs m)"
  by (induction kfs arbitrary: m) (simp_all add: kfs_assign_ascending kfs_assign_keyed)

lemma insert_maps_inv:
  "sorted_wrt (<) (map fst m) \<and> keyed e m \<Longrightarrow>
   sorted_wrt (<) (map fst (fold (\<lambda>pMap mp. fold (\<lambda>kf. kfs_assign (mnId e kf) kf) (GetAllKeyFrames e pMap) mp) ms m))
   \<and> keyed e (fold (\<lambda>pMap mp. fold (\<lambda>kf. kfs_assign (mnId e kf) kf) (GetAllKeyFrames e pMap) mp) ms m)"
proof (induction ms arbitrary: m)
  case Nil
  then show ?case by simp
next
  case (Cons a ms)
  from insert_keyframes_inv[OF Cons.prems] show ?case
    by (simp add: Cons.IH)
qed

lemma makeKFIdPair_ascending: "sorted_wrt (<) (map fst (makeKFIdPair e mapsList))"
  unfolding makeKFIdPair_def using insert_maps_inv[of "[]" e mapsList] by (simp add: keyed_def)

lemma makeKFIdPair_keyed: "keyed e (makeKFIdPair e mapsList)"
  unfolding makeKFIdPair_def using insert_maps_inv[of "[]" e mapsList] by (simp add: keyed_def)

lemma fold_pushKeyFrame:
  "\<exists>g tbl1. fold (\<lambda>cKf. pushKeyFrame x e fr (snd cKf)) idx (graph, tbl) = (g, tbl1)
     \<and> poses_id g = poses_id graph @ map (\<lambda>cKf. mnId e (snd cKf)) idx
     \<and> map ps_stamp (poses g) = map ps_stamp (poses graph) @ map (\<lambda>cKf. secToStamp x (mTimeStamp e (snd cKf))) idx
     \<and> map ps_frame_id (poses g) = map ps_frame_id (poses graph) @ map (\<lambda>cKf. fr) idx"
proof (induction idx arbitrary: graph tbl)
  case Nil
  then show ?case by simp
next
  case (Cons p idx)
  obtain g1 t1 where step: "pushKeyFrame x e fr (snd p) (graph, tbl) = (g1, t1)"
    by (cases "pushKeyFrame x e fr (snd p) (graph, tbl)")
  then have g1: "poses_id g1 = poses_id graph @ [mnId e (snd p)]"
    "map ps_stamp (poses g1) = map ps_stamp (poses graph) @ [secToStamp x (mTimeStamp e (snd p))]"
    "map ps_frame_id (poses g1) = map ps_frame_id (poses graph) @ [fr]"
    by (auto simp: pushKeyFrame_def refpose_at_def split: option.splits)
  from Cons.IH[of g1 t1] show ?case
    by (simp add: step g1)
qed

text \<open>
  C10. With the flag \<open>currentMapKFOnly\<close> false, the pose graph is filled from the
  keyframe index as a resolution pass builds it. The identifiers pushed are the keys of
  the index in its iteration order: strictly ascending, hence each at most once, whatever
  the order in which the keyframes were inserted; the stamps are pushed in parallel.
  The identifier of a keyframe is taken to be the same at both times.
\<close>

theorem pose_graph_ids_ascending:
  assumes "allKFs s = makeKFIdPair e mapsList"
    and "\<forall>cKf \<in> set (allKFs s). mnId e' (snd cKf) = mnId e (snd cKf)"
  shows "\<exists>g s'. getOptimizedPoseGraph x e' s graph False = Inr (g, s')
     \<and> poses_id g = poses_id graph @ map fst (allKFs s)
     \<and> sorted_wrt (<) (map fst (allKFs s)) \<and> distinct (map fst (allKFs s))
     \<and> map ps_stamp (poses g) =
         map ps_stamp (poses graph) @ map (\<lambda>cKf. secToStamp x (mTimeStamp e' (snd cKf))) (allKFs s)"
proof -
  have asc: "sorted_wrt (<) (map fst (allKFs s))"
    unfolding assms(1) by (rule makeKFIdPair_ascending)
  then have dist: "distinct (map fst (allKFs s))"
    by (simp add: strict_sorted_iff)
  have "keyed e (allKFs s)"
    unfolding assms(1) by (rule makeKFIdPair_keyed)
  with assms(2) have ids: "map (\<lambda>cKf. mnId e' (snd cKf)) (allKFs s) = map fst (allKFs s)"
    by (auto simp: keyed_def list_all_iff)
  obtain g tbl1 where f: "fold (\<lambda>cKf. pushKeyFrame x e' (globalFrame s) (snd cKf)) (allKFs s) (graph, mapReferencePoses s) = (g, tbl1)"
    and g: "poses_id g = poses_id graph @ map (\<lambda>cKf. mnId e' (snd cKf)) (allKFs s)"
      "map ps_stamp (poses g) = map ps_stamp (poses graph) @ map (\<lambda>cKf. secToStamp x (mTimeStamp e' (snd cKf))) (allKFs s)"
    using fold_pushKeyFrame[of x e' "globalFrame s" "allKFs s" graph "mapReferencePoses s"] by blast
  have "getOptimizedPoseGraph x e' s graph False = Inr (g, s\<lparr>mapReferencePoses := tbl1\<rparr>)"
    by (simp add: getOptimizedPoseGraph_def f)
  with g ids asc dist show ?thesis by simp
qed

lemma twoMap_index: "makeKFIdPair twoMapEngine [10, 11] = [(0, 100), (4, 104), (5, 105)]"
  by (simp add: makeKFIdPair_def twoMapEngine_def)

theorem pose_graph_ids_ascending_witness:
  "allKFs ((freshState [])\<lparr>allKFs := makeKFIdPair twoMapEngine [10, 11]\<rparr>) = makeKFIdPair twoMapEngine [10, 11]
   \<and> (\<exists>g s'. getOptimizedPoseGraph lineExt (twoMapEngine\<lparr>GetPose := (\<lambda>kf. 0)\<rparr>)
          ((freshState [])\<lparr>allKFs := makeKFIdPair twoMapEngine [10, 11]\<rparr>) emptyGraph False = Inr (g, s')
        \<and> poses_id g = [0, 4, 5])"
proof -
  let ?s = "(freshState [])\<lparr>allKFs := makeKFIdPair twoMapEngine [10, 11]\<rparr>"
  have idx: "allKFs ?s = makeKFIdPair twoMapEngine [10, 11]" by simp
  have same: "\<forall>cKf \<in> set (allKFs ?s).
      mnId (twoMapEngine\<lparr>GetPose := (\<lambda>kf. 0)\<rparr>) (snd cKf) = mnId twoMapEngine (snd cKf)"
    by simp
  from pose_graph_ids_ascending[OF idx same, of lineExt emptyGraph]
  obtain g s' where "getOptimizedPoseGraph lineExt (twoMapEngine\<lparr>GetPose := (\<lambda>kf. 0)\<rparr>) ?s emptyGraph False = Inr (g, s')"
    and "poses_id g = poses_id emptyGraph @ map fst (allKFs ?s)"
    by blast
  then have "getOptimizedPoseGraph lineExt (twoMapEngine\<lparr>GetPose := (\<lambda>kf. 0)\<rparr>) ?s emptyGraph False = Inr (g, s')
      \<and> poses_id g = [0, 4, 5]"
    by (simp add: twoMap_index emptyGraph_def)
  with idx show ?thesis by blast
qed

section \<open>The resolution pass\<close>

lemma refpose_at_keeps:
  "refpose_at tbl d k = (r, tbl1) \<Longrightarrow> tbl j = Some v \<Longrightarrow> tbl1 j = Some v"
  by (auto simp: refpose_at_def split: option.splits)

lemma refpose_at_present:
  "tbl k = Some v \<Longrightarrow> refpose_at tbl d k = (v, tbl)"
  by (simp add: refpose_at_def)

lemma resolveLoop_step:
  "resolveLoop x e rX rY idx (m # ms) tbl =
     (if GetInitKFid e m = 0 then resolveLoop x e rX rY idx ms (tbl(m \<mapsto> rootPose x e rX rY m))
      else case parentKF e idx m of
             None \<Rightarrow> Inl NullKeyFrameDereference
           | Some kf \<Rightarrow>
               resolveLoop x e rX rY idx ms
                 ((snd (refpose_at tbl (defaultAffine x) (GetMap e kf)))
                    (m \<mapsto> transformPoseWithReference x (fst (refpose_at tbl (defaultAffine x) (GetMap e kf))) (GetPose e kf))))"
  by (simp add: rootPose_def parentKF_def split: option.splits prod.splits)

declare resolveLoop.simps(2) [simp del]

lemma resolveLoop_crash:
  "m \<in> set ms \<Longrightarrow> GetInitKFid e m \<noteq> 0 \<Longrightarrow> parentKF e idx m = None \<Longrightarrow>
   resolveLoop x e rX rY idx ms tbl = Inl NullKeyFrameDereference"
proof (induction ms arbitrary: tbl)
  case Nil
  then show ?case by simp
next
  case (Cons a ms)
  show ?case
  proof (cases "a = m")
    case True
    with Cons.prems show ?thesis by (simp add: resolveLoop_step)
  next
    case False
    with Cons.prems have "m \<in> set ms" by simp
    from Cons.IH[OF this Cons.prems(2,3)] show ?thesis
      by (simp add: resolveLoop_step split: option.splits)
  qed
qed

lemma resolveLoop_total:
  "\<forall>m \<in> set ms. GetInitKFid e m \<noteq> 0 \<longrightarrow> parentKF e idx m \<noteq> None \<Longrightarrow>
   \<exists>tbl'. resolveLoop x e rX rY idx ms tbl = Inr tbl'"
proof (induction ms arbitrary: tbl)
  case Nil
  then show ?case by simp
next
  case (Cons a ms)
  then have rest: "\<forall>m \<in> set ms. GetInitKFid e m \<noteq> 0 \<longrightarrow> parentKF e idx m \<noteq> None" by simp
  show ?case
  proof (cases "GetInitKFid e a = 0")
    case True
    with Cons.IH[OF rest] show ?thesis by (simp add: resolveLoop_step)
  next
    case False
    with Cons.prems obtain kf where "parentKF e idx a = Some kf" by auto
    with False Cons.IH[OF rest] show ?thesis by (simp add: resolveLoop_step)
  qed
qed

lemma resolveLoop_keeps:
  "resolveLoop x e rX rY idx ms tbl = Inr tbl' \<Longrightarrow> k \<notin> set ms \<Longrightarrow> tbl k = Some v \<Longrightarrow> tbl' k = Some v"
proof (induction ms arbitrary: tbl)
  case Nil
  then show ?case by simp
next
  case (Cons a ms)
  from Cons.prems(2) have ka: "k \<noteq> a" and kms: "k \<notin> set ms" by auto
  show ?case
  proof (cases "GetInitKFid e a = 0")
    case True
    with Cons.prems(1) have "resolveLoop x e rX rY idx ms (tbl(a \<mapsto> rootPose x e rX rY a)) = Inr tbl'"
      by (simp add: resolveLoop_step)
    from Cons.IH[OF this kms] ka Cons.prems(3) show ?thesis by simp
  next
    case False
    with Cons.prems(1) obtain kf where kf: "parentKF e idx a = Some kf"
      by (auto simp: resolveLoop_step split: option.splits)
    obtain r t1 where ra: "refpose_at tbl (defaultAffine x) (GetMap e kf) = (r, t1)"
      by (cases "refpose_at tbl (defaultAffine x) (GetMap e kf)")
    from Cons.prems(1) False kf ra
    have run: "resolveLoop x e rX rY idx ms (t1(a \<mapsto> transformPoseWithReference x r (GetPose e kf))) = Inr tbl'"
      by (simp add: resolveLoop_step)
    from refpose_at_keeps[OF ra Cons.prems(3)] ka
    have "(t1(a \<mapsto> transformPoseWithReference x r (GetPose e kf))) k = Some v" by simp
    from Cons.IH[OF run kms this] show ?thesis .
  qed
qed

lemma resolveLoop_covers:
  "resolveLoop x e rX rY idx ms tbl = Inr tbl' \<Longrightarrow> m \<in> set ms \<Longrightarrow> tbl' m \<noteq> None"
proof (induction ms arbitrary: tbl)
  case Nil
  then show ?case by simp
next
  case (Cons a ms)
  obtain t2 where run: "resolveLoop x e rX rY idx ms t2 = Inr tbl'" and t2a: "t2 a \<noteq> None"
    using Cons.prems(1)
    by (auto simp: resolveLoop_step split: if_splits option.splits)
  show ?case
  proof (cases "m \<in> set ms")
    case True
    from Cons.IH[OF run True] show ?thesis .
  next
    case False
    with Cons.prems(2) have "m = a" by simp
    with t2a obtain v where "t2 m = Some v" by auto
    from resolveLoop_keeps[OF run False this] show ?thesis by simp
  qed
qed

lemma resolveLoop_root:
  "resolveLoop x e rX rY idx ms tbl = Inr tbl' \<Longrightarrow> m \<in> set ms \<Longrightarrow> GetInitKFid e m = 0 \<Longrightarrow>
   tbl' m = Some (rootPose x e rX rY m)"
proof (induction ms arbitrary: tbl)
  case Nil
  then show ?case by simp
next
  case (Cons a ms)
  obtain t2 where run: "resolveLoop x e rX rY idx ms t2 = Inr tbl'"
    and t2a: "GetInitKFid e a = 0 \<longrightarrow> t2 a = Some (rootPose x e rX rY a)"
    using Cons.prems(1)
    by (auto simp: resolveLoop_step split: if_splits option.splits)
  show ?case
  proof (cases "m \<in> set ms")
    case True
    from Cons.IH[OF run True Cons.prems(3)] show ?thesis .
  next
    case False
    with Cons.prems(2) have "m = a" by simp
    with t2a Cons.prems(3) have "t2 m = Some (rootPose x e rX rY m)" by simp
    from resolveLoop_keeps[OF run False this] show ?thesis .
  qed
qed

lemma resolveLoop_child:
  assumes "resolveLoop x e rX rY idx ms tbl = Inr tbl'"
    and "sorted (map (GetInitKFid e) ms)"
    and "m \<in> set ms" and "GetInitKFid e m \<noteq> 0"
    and "parentKF e idx m = Some kf"
    and "GetInitKFid e (GetMap e kf) < GetInitKFid e m"
    and "GetMap e kf \<in> set ms \<or> tbl (GetMap e kf) \<noteq> None"
  shows "\<exists>ref. tbl' (GetMap e kf) = Some ref
           \<and> tbl' m = Some (transformPoseWithReference x ref (GetPose e kf))"
  using assms(1,2,3,7)
proof (induction ms arbitrary: tbl)
  case Nil
  then show ?case by simp
next
  case (Cons a ms)
  let ?o = "GetMap e kf"
  from Cons.prems(2) have sorted_ms: "sorted (map (GetInitKFid e) ms)"
    and least: "\<forall>b \<in> set ms. GetInitKFid e a \<le> GetInitKFid e b" by auto
  show ?case
  proof (cases "m \<in> set ms")
    case True
    obtain t2 where run: "resolveLoop x e rX rY idx ms t2 = Inr tbl'"
      and t2a: "t2 a \<noteq> None" and keep: "\<forall>j. tbl j \<noteq> None \<longrightarrow> t2 j \<noteq> None"
      using Cons.prems(1)
      by (auto simp: resolveLoop_step refpose_at_def split: if_splits option.splits)
    from Cons.prems(4) t2a keep have "?o \<in> set ms \<or> t2 ?o \<noteq> None" by auto
    from Cons.IH[OF run sorted_ms True this] show ?thesis .
  next
    case False
    with Cons.prems(3) have ma: "m = a" by simp
    have "?o \<notin> set ms"
    proof
      assume "?o \<in> set ms"
      with least have "GetInitKFid e a \<le> GetInitKFid e ?o" by blast
      with assms(6) ma show False by simp
    qed
    moreover from assms(6) ma have "?o \<noteq> a" by auto
    ultimately obtain ref where ref: "tbl ?o = Some ref"
      using Cons.prems(4) by auto
    from Cons.prems(1) ma assms(4,5) ref
    have run: "resolveLoop x e rX rY idx ms (tbl(m \<mapsto> transformPoseWithReference x ref (GetPose e kf))) = Inr tbl'"
      by (simp add: resolveLoop_step refpose_at_present)
    have "tbl' m = Some (transformPoseWithReference x ref (GetPose e kf))"
      using resolveLoop_keeps[OF run False] by simp
    moreover have "tbl' ?o = Some ref"
      using resolveLoop_keeps[OF run \<open>?o \<notin> set ms\<close>] ref \<open>?o \<noteq> a\<close> ma by simp
    ultimately show ?thesis by simp
  qed
qed

lemma calculateReferencePoses_unfold:
  "orbAtlas s = Some atlas \<Longrightarrow>
   calculateReferencePoses x e s =
     (case resolveLoop x e (robotX s) (robotY s) (forestIndex e atlas)
             (sortMaps e (GetAllMaps e atlas)) Map.empty of
        Inl err \<Rightarrow> Inl err
      | Inr tbl \<Rightarrow> Inr (s\<lparr>mapReferencePoses := tbl, allKFs := forestIndex e atlas\<rparr>))"
  by (simp add: calculateReferencePoses_def forestIndex_def Let_def split: sum.splits)

lemma index_twoMap: "forestIndex twoMapEngine 7 = [(0, 100), (4, 104), (5, 105)]"
  by (simp add: forestIndex_def sortMaps_def makeKFIdPair_def twoMapEngine_def)

lemma index_culled: "forestIndex culledEngine 7 = [(0, 100), (5, 105)]"
  by (simp add: forestIndex_def sortMaps_def makeKFIdPair_def twoMapEngine_def culledEngine_def)

lemma index_adopted: "forestIndex adoptedEngine 7 = [(0, 100), (4, 104), (5, 105), (9, 109), (10, 110)]"
  by (simp add: forestIndex_def sortMaps_def makeKFIdPair_def adoptedEngine_def)

lemma readyState_fields:
  "orbAtlas readyState = Some 7" "robotX readyState = 2" "robotY readyState = 0"
  by (simp_all add: readyState_def freshState_def)


lemma resolve_adopted:
  "resolved lineExt adoptedEngine readyState 10 = Some 2
   \<and> resolved lineExt adoptedEngine readyState 11 = Some 4
   \<and> resolved lineExt adoptedEngine readyState 12 = Some 13"
  apply (simp add: resolved_def calculateReferencePoses_unfold[of _ 7] readyState_fields index_adopted)
  apply (simp add: sortMaps_def adoptedEngine_def)
  apply (simp add: resolveLoop_step parentKF_def kfs_find_def rootPose_def poseOffset_def refpose_at_def lineExt_def)
  done

lemma resolve_culled:
  "calculateReferencePoses lineExt culledEngine readyState = Inl NullKeyFrameDereference"
  apply (simp add: calculateReferencePoses_unfold[of _ 7] readyState_fields index_culled)
  apply (simp add: sortMaps_def twoMapEngine_def culledEngine_def)
  apply (simp add: resolveLoop_step parentKF_def kfs_find_def rootPose_def poseOffset_def refpose_at_def lineExt_def)
  done

lemma twoMap_fields:
  "GetAllMaps twoMapEngine 7 = [11, 10]"
  "GetInitKFid twoMapEngine 10 = 0" "GetInitKFid twoMapEngine 11 = 5"
  "GetOriginKF twoMapEngine 10 = 100"
  "GetMap twoMapEngine 104 = 10" "GetPose twoMapEngine 104 = 40" "GetPose twoMapEngine 100 = 0"
  by (simp_all add: twoMapEngine_def)

lemma adopted_fields:
  "GetAllMaps adoptedEngine 7 = [10, 11, 12]"
  "GetInitKFid adoptedEngine 10 = 0" "GetInitKFid adoptedEngine 11 = 5"
  "GetInitKFid adoptedEngine 12 = 10"
  "GetMap adoptedEngine 104 = 12" "GetPose adoptedEngine 104 = 4"
  by (simp_all add: adoptedEngine_def)

lemma sortMaps_set: "set (sortMaps e ms) = set ms"
  by (simp add: sortMaps_def)

lemma sortMaps_sorted: "sorted (map (GetInitKFid e) (sortMaps e ms))"
  by (simp add: sortMaps_def)

text \<open>
  C3. When the atlas holds a map that is not the root and whose parent keyframe (the one with
  the identifier \<^verbatim>\<open>GetInitKFid() - 1\<close>) is not in the keyframe index, the resolution pass
  does not skip that map: \<^verbatim>\<open>allKFs_[GetInitKFid() - 1]\<close> yields a null pointer, the pass
  dereferences it, and no table is produced for any map.
\<close>

theorem missing_parent_is_dereferenced:
  assumes "orbAtlas s = Some atlas"
    and "m \<in> set (GetAllMaps e atlas)"
    and "GetInitKFid e m \<noteq> 0"
    and "parentKF e (forestIndex e atlas) m = None"
  shows "calculateReferencePoses x e s = Inl NullKeyFrameDereference"
proof -
  from assms(2) have "m \<in> set (sortMaps e (GetAllMaps e atlas))"
    by (simp add: sortMaps_set)
  from resolveLoop_crash[OF this assms(3,4), of x "robotX s" "robotY s" Map.empty] show ?thesis
    by (simp add: calculateReferencePoses_unfold[OF assms(1)])
qed

theorem missing_parent_is_dereferenced_witness:
  "orbAtlas readyState = Some 7 \<and> 11 \<in> set (GetAllMaps culledEngine 7)
   \<and> GetInitKFid culledEngine 11 \<noteq> 0
   \<and> parentKF culledEngine (forestIndex culledEngine 7) 11 = None
   \<and> calculateReferencePoses lineExt culledEngine readyState = Inl NullKeyFrameDereference"
proof -
  have a: "orbAtlas readyState = Some 7" by (rule readyState_fields)
  have b: "11 \<in> set (GetAllMaps culledEngine 7)"
    by (simp add: culledEngine_def twoMapEngine_def)
  have c: "GetInitKFid culledEngine 11 \<noteq> 0"
    by (simp add: culledEngine_def twoMapEngine_def)
  have "GetInitKFid culledEngine 11 = 5"
    by (simp add: culledEngine_def twoMapEngine_def)
  then have d: "parentKF culledEngine (forestIndex culledEngine 7) 11 = None"
    by (simp add: parentKF_def index_culled kfs_find_def)
  from missing_parent_is_dereferenced[OF a b c d, of lineExt] a b c d show ?thesis by simp
qed

text \<open>
  C4. When the parent keyframe of every map that is not the root is in the index, the
  resolution pass ends and leaves a reference pose for every map of the atlas. A root map
  (\<^verbatim>\<open>GetInitKFid() == 0\<close>) gets the world-origin offset composed with the pose of its
  origin keyframe. Any other map whose parent keyframe belongs to a map of the atlas with
  a smaller \<^verbatim>\<open>GetInitKFid()\<close>, which the ascending order has therefore resolved before,
  gets that map's reference pose composed with the pose of the parent keyframe.
\<close>

theorem resolution_assigns:
  assumes "orbAtlas s = Some atlas"
    and "\<forall>m \<in> set (GetAllMaps e atlas).
           GetInitKFid e m \<noteq> 0 \<longrightarrow> parentKF e (forestIndex e atlas) m \<noteq> None"
  shows "\<exists>s'. calculateReferencePoses x e s = Inr s'
     \<and> (\<forall>m \<in> set (GetAllMaps e atlas). mapReferencePoses s' m \<noteq> None)
     \<and> (\<forall>m \<in> set (GetAllMaps e atlas). GetInitKFid e m = 0 \<longrightarrow>
           mapReferencePoses s' m = Some (rootPose x e (robotX s) (robotY s) m))
     \<and> (\<forall>m \<in> set (GetAllMaps e atlas). \<forall>kf.
           GetInitKFid e m \<noteq> 0 \<and> parentKF e (forestIndex e atlas) m = Some kf
           \<and> GetMap e kf \<in> set (GetAllMaps e atlas)
           \<and> GetInitKFid e (GetMap e kf) < GetInitKFid e m \<longrightarrow>
           (\<exists>ref. mapReferencePoses s' (GetMap e kf) = Some ref
                  \<and> mapReferencePoses s' m = Some (transformPoseWithReference x ref (GetPose e kf))))"
proof -
  let ?ms = "sortMaps e (GetAllMaps e atlas)"
  let ?idx = "forestIndex e atlas"
  from assms(2) have "\<forall>m \<in> set ?ms. GetInitKFid e m \<noteq> 0 \<longrightarrow> parentKF e ?idx m \<noteq> None"
    by (simp add: sortMaps_set)
  from resolveLoop_total[OF this]
  obtain tbl where run: "resolveLoop x e (robotX s) (robotY s) ?idx ?ms Map.empty = Inr tbl"
    by blast
  let ?s' = "s\<lparr>mapReferencePoses := tbl, allKFs := ?idx\<rparr>"
  have res: "calculateReferencePoses x e s = Inr ?s'"
    by (simp add: calculateReferencePoses_unfold[OF assms(1)] run)
  have covers: "\<forall>m \<in> set (GetAllMaps e atlas). mapReferencePoses ?s' m \<noteq> None"
    using resolveLoop_covers[OF run] by (simp add: sortMaps_set)
  have roots: "\<forall>m \<in> set (GetAllMaps e atlas). GetInitKFid e m = 0 \<longrightarrow>
      mapReferencePoses ?s' m = Some (rootPose x e (robotX s) (robotY s) m)"
    using resolveLoop_root[OF run] by (simp add: sortMaps_set)
  have children: "\<forall>m \<in> set (GetAllMaps e atlas). \<forall>kf.
      GetInitKFid e m \<noteq> 0 \<and> parentKF e ?idx m = Some kf
      \<and> GetMap e kf \<in> set (GetAllMaps e atlas)
      \<and> GetInitKFid e (GetMap e kf) < GetInitKFid e m \<longrightarrow>
      (\<exists>ref. mapReferencePoses ?s' (GetMap e kf) = Some ref
             \<and> mapReferencePoses ?s' m = Some (transformPoseWithReference x ref (GetPose e kf)))"
  proof (intro ballI allI impI)
    fix m kf
    assume m: "m \<in> set (GetAllMaps e atlas)"
      and h: "GetInitKFid e m \<noteq> 0 \<and> parentKF e ?idx m = Some kf
        \<and> GetMap e kf \<in> set (GetAllMaps e atlas)
        \<and> GetInitKFid e (GetMap e kf) < GetInitKFid e m"
    from m have m': "m \<in> set ?ms" by (simp add: sortMaps_set)
    from h have o': "GetMap e kf \<in> set ?ms \<or> Map.empty (GetMap e kf) \<noteq> None"
      by (simp add: sortMaps_set)
    from h have h1: "GetInitKFid e m \<noteq> 0" and h2: "parentKF e ?idx m = Some kf"
      and h3: "GetInitKFid e (GetMap e kf) < GetInitKFid e m" by simp_all
    from resolveLoop_child[OF run sortMaps_sorted m' h1 h2 h3 o']
    show "\<exists>ref. mapReferencePoses ?s' (GetMap e kf) = Some ref
        \<and> mapReferencePoses ?s' m = Some (transformPoseWithReference x ref (GetPose e kf))"
      by simp
  qed
  from res covers roots children show ?thesis by blast
qed

theorem resolution_assigns_witness:
  "orbAtlas readyState = Some 7
   \<and> GetAllMaps twoMapEngine 7 = [11, 10]
   \<and> GetInitKFid twoMapEngine 10 = 0
   \<and> parentKF twoMapEngine (forestIndex twoMapEngine 7) 11 = Some 104
   \<and> resolved lineExt twoMapEngine readyState 10 = Some 2
   \<and> resolved lineExt twoMapEngine readyState 11 = Some 42"
proof -
  have a: "orbAtlas readyState = Some 7" by (rule readyState_fields)
  have par: "parentKF twoMapEngine (forestIndex twoMapEngine 7) 11 = Some 104"
    by (simp add: parentKF_def index_twoMap kfs_find_def twoMap_fields)
  have b: "\<forall>m \<in> set (GetAllMaps twoMapEngine 7).
      GetInitKFid twoMapEngine m \<noteq> 0 \<longrightarrow> parentKF twoMapEngine (forestIndex twoMapEngine 7) m \<noteq> None"
    by (simp add: twoMap_fields par)
  from resolution_assigns[OF a b, of lineExt]
  obtain s' where run: "calculateReferencePoses lineExt twoMapEngine readyState = Inr s'"
    and roots: "\<forall>m \<in> set (GetAllMaps twoMapEngine 7). GetInitKFid twoMapEngine m = 0 \<longrightarrow>
        mapReferencePoses s' m = Some (rootPose lineExt twoMapEngine (robotX readyState) (robotY readyState) m)"
    and children: "\<forall>m \<in> set (GetAllMaps twoMapEngine 7). \<forall>kf.
        GetInitKFid twoMapEngine m \<noteq> 0 \<and> parentKF twoMapEngine (forestIndex twoMapEngine 7) m = Some kf
        \<and> GetMap twoMapEngine kf \<in> set (GetAllMaps twoMapEngine 7)
        \<and> GetInitKFid twoMapEngine (GetMap twoMapEngine kf) < GetInitKFid twoMapEngine m \<longrightarrow>
        (\<exists>ref. mapReferencePoses s' (GetMap twoMapEngine kf) = Some ref
               \<and> mapReferencePoses s' m = Some (transformPoseWithReference lineExt ref (GetPose twoMapEngine kf)))"
    by blast
  have "rootPose lineExt twoMapEngine (robotX readyState) (robotY readyState) 10 = 2"
    by (simp add: rootPose_def poseOffset_def readyState_fields twoMap_fields lineExt_def)
  with roots have r10: "mapReferencePoses s' 10 = Some 2"
    by (simp add: twoMap_fields)
  from children[rule_format, of 11 104] par
  have "\<exists>ref. mapReferencePoses s' 10 = Some ref
      \<and> mapReferencePoses s' 11 = Some (transformPoseWithReference lineExt ref 40)"
    by (simp add: twoMap_fields)
  with r10 have r11: "mapReferencePoses s' 11 = Some 42"
    by (auto simp: lineExt_def)
  from run r10 r11 have "resolved lineExt twoMapEngine readyState 10 = Some 2
      \<and> resolved lineExt twoMapEngine readyState 11 = Some 42"
    by (simp add: resolved_def)
  with a par show ?thesis by (simp add: twoMap_fields)
qed

text \<open>
  The parent keyframe of a map may belong to a map that the ascending order resolves
  later. In the three-map atlas, keyframe 4 belongs to the youngest map 12: map 11 is
  computed from a default-constructed entry for map 12, not from the reference pose 13
  that map 12 receives afterwards.
\<close>

theorem unresolved_owner_counterexample:
  "parentKF adoptedEngine (forestIndex adoptedEngine 7) 11 = Some 104
   \<and> parentKF adoptedEngine (forestIndex adoptedEngine 7) 12 = Some 109
   \<and> GetMap adoptedEngine 104 = 12
   \<and> resolved lineExt adoptedEngine readyState 12 = Some 13
   \<and> resolved lineExt adoptedEngine readyState 11 = Some 4
   \<and> resolved lineExt adoptedEngine readyState 11
       \<noteq> Some (transformPoseWithReference lineExt 13 (GetPose adoptedEngine 104))"
proof -
  have "parentKF adoptedEngine (forestIndex adoptedEngine 7) 11 = Some 104"
    and "parentKF adoptedEngine (forestIndex adoptedEngine 7) 12 = Some 109"
    by (simp_all add: parentKF_def index_adopted kfs_find_def adopted_fields)
  moreover have "transformPoseWithReference lineExt 13 (GetPose adoptedEngine 104) = 17"
    by (simp add: adopted_fields lineExt_def)
  ultimately show ?thesis
    using resolve_adopted by (simp add: adopted_fields)
qed



lemma resolution_index_idempotent:
  "calculateReferencePoses x e s = Inr s1 \<Longrightarrow> calculateReferencePoses x' e s1 = Inr s2 \<Longrightarrow>
   allKFs s2 = allKFs s1"
  by (auto simp: calculateReferencePoses_def Let_def split: option.splits sum.splits)






section \<open>Decoding failures, the merge gate and the success branch\<close>

text \<open>
  C5. When the image or the depth message cannot be decoded, a tracking call returns
  failure without calling the engine. trackRGBD leaves every member as it was. trackRGBDi
  leaves the inertial queue, the reference-pose table, the keyframe index, the tracked
  pose and \<^verbatim>\<open>hasTracked_\<close> as they were, and has stored the engine's atlas pointer in
  \<^verbatim>\<open>orbAtlas_\<close>, which it does before decoding.
\<close>

theorem decode_failure_effects:
  assumes "toCvShare x msgRGB = None \<or> toCvShare x msgD = None"
  shows "trackRGBD x e s msgRGB msgD Tcw =
           Inr \<lparr>ok = False, Tcw_out = Tcw, engine_input = None, st = s\<rparr>
       \<and> trackRGBDi x e s msgRGB msgD Tcw =
           Inr \<lparr>ok = False, Tcw_out = Tcw, engine_input = None,
                st = s\<lparr>orbAtlas := Some (GetAtlas e)\<rparr>\<rparr>"
  using trackRGBD_undecoded[OF assms] trackRGBDi_undecoded[OF assms] by simp

theorem decode_failure_effects_witness:
  "(toCvShare lineExt (brokenImage 5) = None \<or> toCvShare lineExt (imageAt 5) = None)
   \<and> trackRGBD lineExt (oneMapEngine 2 False) (freshState [imuAt 3]) (brokenImage 5) (imageAt 5) 0 =
       Inr \<lparr>ok = False, Tcw_out = 0, engine_input = None, st = freshState [imuAt 3]\<rparr>
   \<and> trackRGBDi lineExt (oneMapEngine 2 False) (freshState [imuAt 3]) (brokenImage 5) (imageAt 5) 0 =
       Inr \<lparr>ok = False, Tcw_out = 0, engine_input = None,
            st = (freshState [imuAt 3])\<lparr>orbAtlas := Some 7\<rparr>\<rparr>"
proof -
  have h: "toCvShare lineExt (brokenImage 5) = None \<or> toCvShare lineExt (imageAt 5) = None"
    by (simp add: decode_brokenImage)
  have "GetAtlas (oneMapEngine 2 False) = 7" by (simp add: oneMapEngine_def)
  with decode_failure_effects[OF h, of "oneMapEngine 2 False" "freshState [imuAt 3]" 0] h
  show ?thesis by simp
qed

text \<open>
  On the members as constructed, where \<^verbatim>\<open>orbAtlas_\<close> holds nothing yet, an inertial call
  that fails to decode leaves members that differ from those before the call.
\<close>

theorem decode_failure_sets_atlas_counterexample:
  "toCvShare lineExt (brokenImage 5) = None
   \<and> trackRGBDi lineExt (oneMapEngine 2 False) (freshState [imuAt 3]) (brokenImage 5) (imageAt 5) 0 =
       Inr \<lparr>ok = False, Tcw_out = 0, engine_input = None,
            st = (freshState [imuAt 3])\<lparr>orbAtlas := Some 7\<rparr>\<rparr>
   \<and> orbAtlas (freshState [imuAt 3]) = None
   \<and> (freshState [imuAt 3])\<lparr>orbAtlas := Some 7\<rparr> \<noteq> freshState [imuAt 3]"
proof -
  have "trackRGBDi lineExt (oneMapEngine 2 False) (freshState [imuAt 3]) (brokenImage 5) (imageAt 5) 0 =
       Inr \<lparr>ok = False, Tcw_out = 0, engine_input = None,
            st = (freshState [imuAt 3])\<lparr>orbAtlas := Some 7\<rparr>\<rparr>"
    by (simp add: trackRGBDi_def decode_brokenImage Let_def oneMapEngine_def)
  moreover have "orbAtlas (freshState [imuAt 3]) = None"
    by (simp add: freshState_def)
  moreover have "(freshState [imuAt 3])\<lparr>orbAtlas := Some 7\<rparr> \<noteq> freshState [imuAt 3]"
    by (simp add: freshState_def)
  ultimately show ?thesis by (simp add: decode_brokenImage)
qed

text \<open>
  C6. When the engine reports that a merge was detected, a tracking call of either kind
  returns failure and leaves the tracked pose, the reference-pose table and
  \<^verbatim>\<open>hasTracked_\<close> as they were, whatever tracking state the engine reports.
\<close>

theorem merge_gates_tracking:
  assumes "mergeDetected e"
  shows "(\<exists>r. trackRGBDi x e s msgRGB msgD Tcw = Inr r \<and> \<not> ok r
            \<and> latestTrackedPose (st r) = latestTrackedPose s
            \<and> mapReferencePoses (st r) = mapReferencePoses s
            \<and> hasTracked (st r) = hasTracked s)
       \<and> (\<exists>r. trackRGBD x e s msgRGB msgD Tcw = Inr r \<and> \<not> ok r
            \<and> latestTrackedPose (st r) = latestTrackedPose s
            \<and> mapReferencePoses (st r) = mapReferencePoses s
            \<and> hasTracked (st r) = hasTracked s)"
proof
  show "\<exists>r. trackRGBDi x e s msgRGB msgD Tcw = Inr r \<and> \<not> ok r
            \<and> latestTrackedPose (st r) = latestTrackedPose s
            \<and> mapReferencePoses (st r) = mapReferencePoses s
            \<and> hasTracked (st r) = hasTracked s"
    by (auto simp: trackRGBDi_def Let_def assms split: option.splits prod.splits)
  show "\<exists>r. trackRGBD x e s msgRGB msgD Tcw = Inr r \<and> \<not> ok r
            \<and> latestTrackedPose (st r) = latestTrackedPose s
            \<and> mapReferencePoses (st r) = mapReferencePoses s
            \<and> hasTracked (st r) = hasTracked s"
    by (auto simp: trackRGBD_def Let_def assms split: option.splits)
qed

theorem merge_gates_tracking_witness:
  "mergeDetected (oneMapEngine 2 True)
   \<and> (\<exists>r. trackRGBDi lineExt (oneMapEngine 2 True)
            ((freshState [imuAt 2, imuAt 9])\<lparr>latestTrackedPose := 9, hasTracked := True\<rparr>)
            (imageAt 5) (imageAt 5) 0 = Inr r
          \<and> \<not> ok r \<and> latestTrackedPose (st r) = 9 \<and> hasTracked (st r))
   \<and> (\<exists>r. trackRGBD lineExt (oneMapEngine 2 True)
            ((freshState [imuAt 2, imuAt 9])\<lparr>latestTrackedPose := 9, hasTracked := True\<rparr>)
            (imageAt 5) (imageAt 5) 0 = Inr r
          \<and> \<not> ok r \<and> latestTrackedPose (st r) = 9 \<and> hasTracked (st r))"
proof -
  have m: "mergeDetected (oneMapEngine 2 True)" by (simp add: oneMapEngine_def)
  from merge_gates_tracking[OF m, of lineExt
      "(freshState [imuAt 2, imuAt 9])\<lparr>latestTrackedPose := 9, hasTracked := True\<rparr>"
      "imageAt 5" "imageAt 5" 0] m
  show ?thesis by simp blast
qed

lemma afterTrack_success:
  assumes "\<not> mergeDetected e" and "GetTrackingState e = 2"
    and "afterTrack x e s T v mark = Inr r"
  shows "ok r \<and> Tcw_out r = T
       \<and> (\<exists>s1 s2. calculateReferencePoses x e s = Inr s1 \<and> correctTrackedPose x e s1 T = Inr s2
              \<and> st r = (if mark then s2\<lparr>hasTracked := True\<rparr> else s2))"
  using assms by (auto simp: afterTrack_def Let_def split: sum.splits)

lemma calculateReferencePoses_hasTracked:
  "calculateReferencePoses x e s = Inr s1 \<Longrightarrow> hasTracked s1 = hasTracked s"
  by (auto simp: calculateReferencePoses_def Let_def split: option.splits sum.splits)

lemma correctTrackedPose_hasTracked:
  "correctTrackedPose x e s T = Inr s1 \<Longrightarrow> hasTracked s1 = hasTracked s"
  by (auto simp: correctTrackedPose_def split: option.splits prod.splits)

lemma afterTrack_unmarked_hasTracked:
  "afterTrack x e s T v False = Inr r \<Longrightarrow> hasTracked (st r) = hasTracked s"
  by (auto simp: afterTrack_def Let_def split: if_splits sum.splits
      dest!: calculateReferencePoses_hasTracked correctTrackedPose_hasTracked)

lemma trackRGBD_never_sets_hasTracked:
  "trackRGBD x e s msgRGB msgD Tcw = Inr r \<Longrightarrow> hasTracked (st r) = hasTracked s"
  by (auto simp: trackRGBD_def Let_def split: option.splits if_splits sum.splits
      dest!: calculateReferencePoses_hasTracked correctTrackedPose_hasTracked)

lemma trackRGBDi_success_sets_hasTracked:
  "trackRGBDi x e s msgRGB msgD Tcw = Inr r \<Longrightarrow> ok r \<Longrightarrow> hasTracked (st r)"
  by (auto simp: trackRGBDi_def Let_def
      split: option.splits prod.splits if_splits sum.splits)

lemma index_oneMap: "forestIndex (oneMapEngine ts mg) 7 = [(0, 100), (3, 103)]"
  by (simp add: forestIndex_def sortMaps_def makeKFIdPair_def oneMapEngine_def)

lemma oneMap_resolved:
  "calculateReferencePoses lineExt (oneMapEngine ts mg) readyState =
     Inr (readyState\<lparr>mapReferencePoses := [10 \<mapsto> 2], allKFs := [(0, 100), (3, 103)]\<rparr>)"
  apply (simp add: calculateReferencePoses_unfold[of _ 7] readyState_fields index_oneMap)
  apply (simp add: sortMaps_def oneMapEngine_def)
  apply (simp add: resolveLoop_step rootPose_def poseOffset_def lineExt_def)
  apply (simp add: index_oneMap)
  done

text \<open>
  C1. With the engine in state 2 (tracking OK) and no merge, trackRGBD on members that hold
  the atlas pointer recomputes the reference poses, stores the projected pose (offset 2,
  origin pose 0, local pose 7: world pose 9) and returns success, but \<^verbatim>\<open>hasTracked_\<close> is
  still false afterwards: only trackRGBDi sets it. On the members as constructed,
  trackRGBD reaches calculateReferencePoses with \<^verbatim>\<open>orbAtlas_\<close> never assigned: only
  trackRGBDi assigns it.
\<close>

theorem trackRGBD_success_without_hasTracked:
  "trackRGBD lineExt (oneMapEngine 2 False) readyState (imageAt 5) (imageAt 5) 0 =
     Inr \<lparr>ok = True, Tcw_out = 7, engine_input = Some [],
          st = readyState\<lparr>mapReferencePoses := [10 \<mapsto> 2], allKFs := [(0, 100), (3, 103)],
                          latestTrackedPose := 9\<rparr>\<rparr>
   \<and> hasTracked (readyState\<lparr>mapReferencePoses := [10 \<mapsto> 2], allKFs := [(0, 100), (3, 103)],
                            latestTrackedPose := 9\<rparr>) = False
   \<and> trackRGBD lineExt (oneMapEngine 2 False) (freshState []) (imageAt 5) (imageAt 5) 0 =
       Inl NullAtlasDereference"
proof -
  have fields: "mergeDetected (oneMapEngine 2 False) = False"
    "GetTrackingState (oneMapEngine 2 False) = 2"
    "GetCurrentMap (oneMapEngine 2 False) 7 = 10"
    "TrackRGBD (oneMapEngine 2 False) () () t [] = 7" for t
    by (simp_all add: oneMapEngine_def)
  have corr: "correctTrackedPose lineExt (oneMapEngine 2 False)
      (readyState\<lparr>mapReferencePoses := [10 \<mapsto> 2], allKFs := [(0, 100), (3, 103)]\<rparr>) 7 =
      Inr (readyState\<lparr>mapReferencePoses := [10 \<mapsto> 2], allKFs := [(0, 100), (3, 103)],
                      latestTrackedPose := 9\<rparr>)"
    apply (simp add: correctTrackedPose_def readyState_def freshState_def fields refpose_at_def)
    apply (simp add: lineExt_def)
    done
  have a: "trackRGBD lineExt (oneMapEngine 2 False) readyState (imageAt 5) (imageAt 5) 0 =
     Inr \<lparr>ok = True, Tcw_out = 7, engine_input = Some [],
          st = readyState\<lparr>mapReferencePoses := [10 \<mapsto> 2], allKFs := [(0, 100), (3, 103)],
                          latestTrackedPose := 9\<rparr>\<rparr>"
    by (simp add: trackRGBD_decoded[OF decode_imageAt decode_imageAt] afterTrack_def fields
        oneMap_resolved corr)
  have b: "hasTracked (readyState\<lparr>mapReferencePoses := [10 \<mapsto> 2], allKFs := [(0, 100), (3, 103)],
                            latestTrackedPose := 9\<rparr>) = False"
    by (simp add: readyState_def freshState_def)
  have c: "trackRGBD lineExt (oneMapEngine 2 False) (freshState []) (imageAt 5) (imageAt 5) 0 =
       Inl NullAtlasDereference"
    apply (simp add: trackRGBD_decoded[OF decode_imageAt decode_imageAt] afterTrack_def fields)
    apply (simp add: calculateReferencePoses_def freshState_def)
    done
  from a b c show ?thesis by simp
qed
section \<open>The map to odom transform\<close>

text \<open>
  C8. getMapToOdomTF leaves the output transform untouched while \<^verbatim>\<open>hasTracked_\<close> is
  false. Otherwise every field of the output is written: the transform is the tracked pose
  composed with the inverse of the odometry pose, the stamp is the odometry stamp plus 0.5
  seconds (500000000 ns), and the frame identifiers are the global frame and the odometry
  frame. The result depends on the members and the odometry message only, not on what the
  output held before, and the call changes no member.
\<close>

theorem getMapToOdomTF_fresh:
  "getMapToOdomTF x s msgOdom tf =
     (if hasTracked s then
        \<lparr>tf_stamp = odom_stamp msgOdom + 500000000,
         tf_frame_id = globalFrame s,
         tf_child_frame_id = odomFrame s,
         tf_translation =
           pose_position (toMsg x (affMul x (latestTrackedPose s)
             (affInverse x (affineOf x (odom_position msgOdom) (odom_orientation msgOdom))))),
         tf_rotation =
           pose_orientation (toMsg x (affMul x (latestTrackedPose s)
             (affInverse x (affineOf x (odom_position msgOdom) (odom_orientation msgOdom)))))\<rparr>
      else tf)"
  by (simp add: getMapToOdomTF_def transformTimeout_def Let_def)

theorem getMapToOdomTF_fresh_witness:
  "getMapToOdomTF lineExt (readyState\<lparr>latestTrackedPose := 9, hasTracked := True\<rparr>)
       (odomAt 1000000000 4) staleTF =
     \<lparr>tf_stamp = 1500000000, tf_frame_id = ''map'', tf_child_frame_id = ''odom'',
      tf_translation = \<lparr>vx = 5, vy = 0, vz = 0\<rparr>,
      tf_rotation = \<lparr>qw = 1, qx = 0, qy = 0, qz = 0\<rparr>\<rparr>
   \<and> getMapToOdomTF lineExt readyState (odomAt 1000000000 4) staleTF = staleTF"
  unfolding getMapToOdomTF_fresh
  by (simp add: readyState_def freshState_def odomAt_def lineExt_def)

end
